theory Spec2Isabelle
  imports Main
begin

section \<open>Data model of package dblogic\<close>

text \<open>
  The Go structs of package dblogic become records, its integer enumerations datatypes.
  Go's \<^verbatim>\<open>int\<close> is a 64-bit integer; the ids are only compared and copied, never used in
  arithmetic, so they are modelled as \<^typ>\<open>int\<close>.
\<close>

datatype RepoRoleType = UnknownRole | OwnerRole | ReaderRole | WriterRole

record UserInGroup =
  UserId :: int
  UsergroupId :: int

record UserGroupInGroup =
  ParentUsergroupId :: int
  ChildUsergroupId :: int

record UsergroupRelationships =
  UserInGroups :: "UserInGroup list"
  UserGroupInGroups :: "UserGroupInGroup list"

record RepogroupRel =
  RepogroupId :: int
  RepoId :: int

datatype UserOrGroupRel = UndefUGR | UserUGR | UsergroupUGR

datatype RepoOrGroupRel = UndefRGR | RepoUGR | RepogroupUGR

record AssignedRole =
  UserOrGroup :: UserOrGroupRel
  UserOrGroupID :: int
  RepoOrGroup :: RepoOrGroupRel
  RepoOrGroupID :: int
  RepoRole :: RepoRoleType

text \<open>
  The fields \<^verbatim>\<open>UserId\<close> and \<^verbatim>\<open>RepoId\<close> of \<^verbatim>\<open>RequestDetails\<close> carry the prefix
  \<open>Req\<close> here, because the same field names already belong to \<^typ>\<open>UserInGroup\<close> and
  \<^typ>\<open>RepogroupRel\<close>.
\<close>

record RequestDetails =
  ReqUserId :: int
  Username :: string
  UsergroupRelationships :: UsergroupRelationships
  ReqRepoId :: int
  RepoName :: string
  RepogroupRels :: "RepogroupRel list"
  AssignedRoles :: "AssignedRole list"

subsection \<open>Errors\<close>

text \<open>
  Go errors are values. \<open>Wrap msg e\<close> is \<^verbatim>\<open>fmt.Errorf("msg: %w", e)\<close>;
  \<open>Flat msg e\<close> is \<^verbatim>\<open>fmt.Errorf("msg: %w", e.Error())\<close>, where only the text of \<open>e\<close>
  survives because the operand of \<^verbatim>\<open>%w\<close> is a string. \<open>ErrNoRows\<close> is
  \<^verbatim>\<open>sql.ErrNoRows\<close>, \<open>ErrDriver\<close> any other failure reported by the database driver.
\<close>

datatype error =
    ErrNoRows
  | ErrDriver
  | ErrOwnerOnRepogroup
  | ErrUnableToConvert string
  | ErrVerification
  | ErrFailedCheck
  | ErrRunLimit
  | ErrNoMatchingPolicy
  | Wrap string error
  | Flat string error

subsection \<open>The store seen by one transaction\<close>

text \<open>
  The tables of \<^verbatim>\<open>db-init.sql\<close>, each as the list of its rows without the surrogate
  \<^verbatim>\<open>id\<close> column (every column is declared \<^verbatim>\<open>NOT NULL\<close>). The field \<open>fails\<close> says
  for which statements the driver reports a failure; the statements are named after
  the Go variables that hold their text.
\<close>

datatype Query =
    QBeginTx
  | QUsername
  | QReponame
  | QRepogroup
  | QUsergroups
  | QUserRepoRoles
  | QUsergroupRepoRoles
  | QUserRepogroupRoles
  | QUsergroupRepogroupRoles
  | QCommitTx

record Tx =
  Users :: "(int \<times> string) list"
  Repos :: "(int \<times> string) list"
  UserGroup_membership_users :: "(int \<times> int) list"
  UserGroup_membership_usergroups :: "(int \<times> int) list"
  RepoGroup_membership :: "(int \<times> int) list"
  repo_roles_enum :: "(int \<times> string) list"
  repogroup_roles_enum :: "(int \<times> string) list"
  Repo_Roles_membership_Users :: "(int \<times> int \<times> int) list"
  Repo_Roles_membership_UserGroups :: "(int \<times> int \<times> int) list"
  RepoGroup_Roles_membership_Users :: "(int \<times> int \<times> int) list"
  RepoGroup_Roles_membership_Usergroup :: "(int \<times> int \<times> int) list"
  fails :: "Query \<Rightarrow> bool"

section \<open>Decoding role labels\<close>

definition repoRoleStrToEnum :: "string \<Rightarrow> bool \<Rightarrow> error + RepoRoleType" where
  "repoRoleStrToEnum repoRoleStr isRepogroup =
     (if repoRoleStr = ''owner'' then
        (if isRepogroup then Inl ErrOwnerOnRepogroup else Inr OwnerRole)
      else if repoRoleStr = ''reader'' then Inr ReaderRole
      else if repoRoleStr = ''writer'' then Inr WriterRole
      else Inl (ErrUnableToConvert repoRoleStr))"

section \<open>The recursive usergroup query\<close>

text \<open>
  \<^verbatim>\<open>getUsergroupsRecursive\<close> sends one \<^verbatim>\<open>WITH RECURSIVE ugs ... UNION ...\<close> statement.
  A row of \<open>ugs\<close> is a pair of \<^verbatim>\<open>usergroup_id\<close> and \<^verbatim>\<open>child_usergroup_id\<close>, the latter
  \<^verbatim>\<open>NULL\<close> (\<open>None\<close>) in the rows of the initial select.

  SQLite evaluates such a statement with a queue: the rows of the initial select are
  queued; then, as long as the queue is not empty, one row is taken out, added to the
  result, and the recursive select is run with \<open>ugs\<close> holding that single row; with
  \<^verbatim>\<open>UNION\<close>, a row is queued only if no identical row was queued before. Without an
  \<^verbatim>\<open>ORDER BY\<close> the queue is first-in first-out; the results below that speak of sets of
  rows or usergroups do not depend on that order.
\<close>

type_synonym ugs_row = "int \<times> int option"

definition ugs_initial :: "(int \<times> int) list \<Rightarrow> int \<Rightarrow> ugs_row list" where
  "ugs_initial members userId = [(g, None). (g, u) \<leftarrow> members, u = userId]"

text \<open>A comparison with \<^verbatim>\<open>NULL\<close> is never true, so a \<open>None\<close> child matches no parent.\<close>

definition ugs_recursive :: "(int \<times> int) list \<Rightarrow> ugs_row \<Rightarrow> ugs_row list" where
  "ugs_recursive nesting r =
     [(p, Some c). (p, c) \<leftarrow> nesting, p = fst r \<or> Some p = snd r]"

fun union_new :: "'a list \<Rightarrow> 'a list \<Rightarrow> 'a list" where
  "union_new seen [] = []"
| "union_new seen (x # xs) =
     (if x \<in> set seen then union_new seen xs else x # union_new (x # seen) xs)"

definition nesting_rows :: "(int \<times> int) list \<Rightarrow> ugs_row set" where
  "nesting_rows nesting = set (map (\<lambda>(p, c). (p, Some c)) nesting)"

lemma set_union_new: "set (union_new seen xs) = set xs - set seen"
  by (induction xs arbitrary: seen) auto

lemma distinct_union_new: "distinct (union_new seen xs)"
  by (induction xs arbitrary: seen) (auto simp: set_union_new)

lemma ugs_recursive_rows: "set (ugs_recursive nesting r) \<subseteq> nesting_rows nesting"
  by (auto simp: ugs_recursive_def nesting_rows_def)

function ugs_queue :: "(int \<times> int) list \<Rightarrow> ugs_row list \<Rightarrow> ugs_row list \<Rightarrow> ugs_row list" where
  "ugs_queue nesting seen [] = seen"
| "ugs_queue nesting seen (r # queue) =
     (let new = union_new seen (ugs_recursive nesting r)
      in ugs_queue nesting (seen @ new) (queue @ new))"
  by pat_completeness auto

lemma ugs_queue_measure:
  assumes "union_new seen (ugs_recursive nesting r) = x # xs"
  shows "nesting_rows nesting - set (seen @ x # xs) \<subset> nesting_rows nesting - set seen"
proof -
  have "x \<in> set (union_new seen (ugs_recursive nesting r))"
    using assms by simp
  then have "x \<in> nesting_rows nesting" and "x \<notin> set seen"
    using ugs_recursive_rows [of nesting r] by (auto simp: set_union_new)
  then show ?thesis by auto
qed

termination ugs_queue
proof (relation "inv_image (finite_psubset <*lex*> less_than)
         (\<lambda>(nesting, seen, queue). (nesting_rows nesting - set seen, length queue))",
       goal_cases)
  case 1
  show ?case by (intro wf_inv_image wf_lex_prod wf_finite_psubset wf_less_than)
next
  case (2 nesting seen r queue new)
  show ?case
  proof (cases new)
    case Nil
    then show ?thesis by simp
  next
    case (Cons x xs)
    with 2 have "union_new seen (ugs_recursive nesting r) = x # xs" by simp
    from ugs_queue_measure [OF this] Cons show ?thesis
      by (simp add: finite_psubset_def nesting_rows_def)
  qed
qed

definition ugs :: "Tx \<Rightarrow> int \<Rightarrow> ugs_row list" where
  "ugs tx userId =
     (let init = union_new [] (ugs_initial (UserGroup_membership_users tx) userId)
      in ugs_queue (UserGroup_membership_usergroups tx) init init)"

text \<open>
  A row leaves the queue once, in the order in which it entered, so the list returned
  by \<open>ugs\<close> is the result of the statement and also the list of the rows on which the
  recursive select was run. For a row, the \<^verbatim>\<open>WHERE\<close> clause of the recursive select
  fetches the nesting rows of the usergroup of the row and of its child: these are the
  usergroups the row expands.
\<close>

definition ugs_expanded :: "ugs_row \<Rightarrow> int list" where
  "ugs_expanded r = fst r # (case snd r of None \<Rightarrow> [] | Some c \<Rightarrow> [c])"

definition ugs_expansions :: "Tx \<Rightarrow> int \<Rightarrow> int list" where
  "ugs_expansions tx userId = concat (map ugs_expanded (ugs tx userId))"

text \<open>
  The Go loop over the result rows: a row with a child is a nested usergroup, a row
  without one a usergroup the user is a member of.
\<close>

fun scan_usergroups ::
  "int \<Rightarrow> ugs_row list \<Rightarrow> UserInGroup list \<Rightarrow> UserGroupInGroup list \<Rightarrow> UsergroupRelationships"
where
  "scan_usergroups userId [] userInGroups usergroupInGroups =
     \<lparr>UserInGroups = userInGroups, UserGroupInGroups = usergroupInGroups\<rparr>"
| "scan_usergroups userId ((usergroupId, Some childUgIdInt) # rows) userInGroups usergroupInGroups =
     scan_usergroups userId rows userInGroups
       (usergroupInGroups @
          [\<lparr>ParentUsergroupId = usergroupId, ChildUsergroupId = childUgIdInt\<rparr>])"
| "scan_usergroups userId ((usergroupId, None) # rows) userInGroups usergroupInGroups =
     scan_usergroups userId rows
       (userInGroups @ [\<lparr>UserId = userId, UsergroupId = usergroupId\<rparr>])
       usergroupInGroups"

definition getUsergroupsRecursive :: "int \<Rightarrow> Tx \<Rightarrow> error + UsergroupRelationships" where
  "getUsergroupsRecursive userId tx =
     (if fails tx QUsergroups
      then Inl (Wrap ''error when querying recursively for usergroups'' ErrDriver)
      else Inr (scan_usergroups userId (ugs tx userId) [] []))"

section \<open>The id sets of the role lookups\<close>

text \<open>
  \<^verbatim>\<open>getAssignedRoles\<close> collects ids as the keys of a \<^verbatim>\<open>map[int]bool\<close> whose values are
  all \<^verbatim>\<open>true\<close>. The model keeps the keys of such a map as a list: \<open>map_store\<close> is the
  assignment \<^verbatim>\<open>m[k] = true\<close>, and ranging over the map visits the list. Go leaves the
  order of that visit open, so nothing below depends on it.
\<close>

definition map_store :: "int list \<Rightarrow> int \<Rightarrow> int list" where
  "map_store m k = (if k \<in> set m then m else m @ [k])"

definition usergroupIds :: "UsergroupRelationships \<Rightarrow> int list" where
  "usergroupIds usergroupRels =
     fold (\<lambda>userGroupInGroup m. map_store m (ChildUsergroupId userGroupInGroup))
       (UserGroupInGroups usergroupRels)
       (fold (\<lambda>userInGroups m. map_store m (UsergroupId userInGroups))
          (UserInGroups usergroupRels) [])"

definition repogroupIds :: "RepogroupRel list \<Rightarrow> int list" where
  "repogroupIds repogroupRels =
     fold (\<lambda>repogroupRel m. map_store m (RepogroupId repogroupRel)) repogroupRels []"

section \<open>Identity lookups and repogroup membership\<close>

definition checkUserInDb :: "int \<Rightarrow> Tx \<Rightarrow> error + string" where
  "checkUserInDb userId tx =
     (if fails tx QUsername then Inl (Wrap ''error querying for user from DB'' ErrDriver)
      else case [username. (user_id, username) \<leftarrow> Users tx, user_id = userId] of
             [] \<Rightarrow> Inl (Wrap ''error querying for user from DB'' ErrNoRows)
           | userName # _ \<Rightarrow> Inr userName)"

definition checkRepoInDb :: "string \<Rightarrow> Tx \<Rightarrow> error + int" where
  "checkRepoInDb reponame tx =
     (if fails tx QReponame then Inl (Wrap ''error querying for repo from DB'' ErrDriver)
      else case [repo_id. (repo_id, name) \<leftarrow> Repos tx, name = reponame] of
             [] \<Rightarrow> Inl (Wrap ''error querying for repo from DB'' ErrNoRows)
           | repoId # _ \<Rightarrow> Inr repoId)"

definition getRepogroupRels :: "int \<Rightarrow> Tx \<Rightarrow> error + RepogroupRel list" where
  "getRepogroupRels repoId tx =
     (if fails tx QRepogroup
      then Inl (Wrap ''error when querying for repogroup membership'' ErrDriver)
      else Inr [\<lparr>RepogroupId = repogroupId, RepoId = repoId\<rparr>.
                (repogroupId, repo_id) \<leftarrow> RepoGroup_membership tx, repo_id = repoId])"

section \<open>Role assignments\<close>

text \<open>
  The four role statements of \<^verbatim>\<open>getAssignedRoles\<close>: an inner join of a membership table
  with its table of role names, restricted to the ids bound to the statement.
\<close>

definition getUserRepoRolesQuery :: "Tx \<Rightarrow> int \<Rightarrow> int \<Rightarrow> string list" where
  "getUserRepoRolesQuery tx repoid userid =
     [rolename. (repo_id, user_id, repo_role) \<leftarrow> Repo_Roles_membership_Users tx,
                (role_id, rolename) \<leftarrow> repo_roles_enum tx,
                role_id = repo_role, repo_id = repoid, user_id = userid]"

definition getUsergroupRepoRolesQuery :: "Tx \<Rightarrow> int \<Rightarrow> int list \<Rightarrow> (int \<times> string) list" where
  "getUsergroupRepoRolesQuery tx repoid ugIds =
     [(usergroup_id, rolename).
        (repo_id, usergroup_id, repo_role) \<leftarrow> Repo_Roles_membership_UserGroups tx,
        (role_id, rolename) \<leftarrow> repo_roles_enum tx,
        role_id = repo_role, repo_id = repoid, usergroup_id \<in> set ugIds]"

definition getUserRepogroupRolesQuery :: "Tx \<Rightarrow> int \<Rightarrow> int list \<Rightarrow> (int \<times> string) list" where
  "getUserRepogroupRolesQuery tx userid rgIds =
     [(repogroup_id, rolename).
        (repogroup_id, user_id, repogroup_role) \<leftarrow> RepoGroup_Roles_membership_Users tx,
        (role_id, rolename) \<leftarrow> repogroup_roles_enum tx,
        repogroup_role = role_id, user_id = userid, repogroup_id \<in> set rgIds]"

definition getUsergroupRepogroupRolesQuery ::
  "Tx \<Rightarrow> int list \<Rightarrow> int list \<Rightarrow> (int \<times> int \<times> string) list"
where
  "getUsergroupRepogroupRolesQuery tx ugIds rgIds =
     [(repogroup_id, usergroup_id, rolename).
        (repogroup_id, usergroup_id, repogroup_role) \<leftarrow> RepoGroup_Roles_membership_Usergroup tx,
        (role_id, rolename) \<leftarrow> repogroup_roles_enum tx,
        repogroup_role = role_id, usergroup_id \<in> set ugIds, repogroup_id \<in> set rgIds]"

text \<open>
  The loop over the rows of one statement: \<open>label\<close> reads the role name of a row,
  \<open>mk\<close> builds the \<^verbatim>\<open>AssignedRole\<close>. The first label that does not decode ends the
  whole function with the wrapped error.
\<close>

fun decode_rows ::
  "bool \<Rightarrow> ('r \<Rightarrow> string) \<Rightarrow> ('r \<Rightarrow> RepoRoleType \<Rightarrow> AssignedRole) \<Rightarrow> 'r list \<Rightarrow>
   AssignedRole list \<Rightarrow> error + AssignedRole list"
where
  "decode_rows isRepogroup label mk [] assignedRoles = Inr assignedRoles"
| "decode_rows isRepogroup label mk (row # rows) assignedRoles =
     (case repoRoleStrToEnum (label row) isRepogroup of
        Inl err \<Rightarrow> Inl (Wrap ''error when mapping db role to enum'' err)
      | Inr repoRole \<Rightarrow>
          decode_rows isRepogroup label mk rows (assignedRoles @ [mk row repoRole]))"

definition getAssignedRoles ::
  "int \<Rightarrow> int \<Rightarrow> UsergroupRelationships \<Rightarrow> RepogroupRel list \<Rightarrow> Tx \<Rightarrow> error + AssignedRole list"
where
  "getAssignedRoles userId repoId usergroupRels repogroupRels tx =
     (if fails tx QUserRepoRoles
      then Inl (Wrap ''error getting how user is mapped to repo roles'' ErrDriver)
      else case decode_rows False (\<lambda>repoRoleStr. repoRoleStr)
                  (\<lambda>_ repoRole. \<lparr>UserOrGroup = UserUGR, UserOrGroupID = userId,
                     RepoOrGroup = RepoUGR, RepoOrGroupID = repoId, RepoRole = repoRole\<rparr>)
                  (getUserRepoRolesQuery tx repoId userId) [] of
        Inl err \<Rightarrow> Inl err
      | Inr assignedRoles1 \<Rightarrow>
     (if fails tx QUsergroupRepoRoles
      then Inl (Wrap ''error when querying for usergroup to repo role mappings'' ErrDriver)
      else case decode_rows False snd
                  (\<lambda>(usergroupId, _) repoRole. \<lparr>UserOrGroup = UsergroupUGR,
                     UserOrGroupID = usergroupId,
                     RepoOrGroup = RepoUGR, RepoOrGroupID = repoId, RepoRole = repoRole\<rparr>)
                  (getUsergroupRepoRolesQuery tx repoId (usergroupIds usergroupRels))
                  assignedRoles1 of
        Inl err \<Rightarrow> Inl err
      | Inr assignedRoles2 \<Rightarrow>
     (if fails tx QUserRepogroupRoles
      then Inl (Wrap ''error when querying for user to repogroup role mappings'' ErrDriver)
      else case decode_rows True snd
                  (\<lambda>(repogroupId, _) repoRole. \<lparr>UserOrGroup = UserUGR, UserOrGroupID = userId,
                     RepoOrGroup = RepogroupUGR, RepoOrGroupID = repogroupId,
                     RepoRole = repoRole\<rparr>)
                  (getUserRepogroupRolesQuery tx userId (repogroupIds repogroupRels))
                  assignedRoles2 of
        Inl err \<Rightarrow> Inl err
      | Inr assignedRoles3 \<Rightarrow>
     (if fails tx QUsergroupRepogroupRoles
      then Inl (Wrap ''error when querying for usergroup to repogroup role mappings'' ErrDriver)
      else decode_rows True (\<lambda>(_, _, roleNameStr). roleNameStr)
             (\<lambda>(repogroupId, usergroupId, _) repoRole. \<lparr>UserOrGroup = UsergroupUGR,
                UserOrGroupID = usergroupId,
                RepoOrGroup = RepogroupUGR, RepoOrGroupID = repogroupId,
                RepoRole = repoRole\<rparr>)
             (getUsergroupRepogroupRolesQuery tx (usergroupIds usergroupRels)
                (repogroupIds repogroupRels))
             assignedRoles3))))"

section \<open>Gathering the request details\<close>

text \<open>
  \<^verbatim>\<open>GatherRequestDetails\<close> calls the functions above one after the other inside one
  transaction and stops at the first error. The model returns, with the result, the
  list of the calls made, in the order they were made.
\<close>

datatype Call =
    CallBeginTx
  | CallCheckUserInDb
  | CallGetUsergroupsRecursive
  | CallCheckRepoInDb
  | CallGetRepogroupRels
  | CallGetAssignedRoles
  | CallRollback
  | CallCommit

definition GatherRequestDetails ::
  "int \<Rightarrow> string \<Rightarrow> Tx \<Rightarrow> Call list \<times> (error + RequestDetails)"
where
  "GatherRequestDetails userId reponame tx =
     (if fails tx QBeginTx then ([CallBeginTx], Inl (Wrap ''error when making Tx'' ErrDriver))
      else case checkUserInDb userId tx of
        Inl err \<Rightarrow>
          ([CallBeginTx, CallCheckUserInDb, CallRollback],
           Inl (Wrap ''error from checkUserInDb'' err))
      | Inr username \<Rightarrow>
     (case getUsergroupsRecursive userId tx of
        Inl err \<Rightarrow>
          ([CallBeginTx, CallCheckUserInDb, CallGetUsergroupsRecursive, CallRollback],
           Inl (Wrap ''error from getUsergroupsRecursive'' err))
      | Inr usergroupRels \<Rightarrow>
     (case checkRepoInDb reponame tx of
        Inl err \<Rightarrow>
          ([CallBeginTx, CallCheckUserInDb, CallGetUsergroupsRecursive, CallCheckRepoInDb,
            CallRollback],
           Inl (Wrap ''error from checkRepoInDb'' err))
      | Inr repoId \<Rightarrow>
     (case getRepogroupRels repoId tx of
        Inl err \<Rightarrow>
          ([CallBeginTx, CallCheckUserInDb, CallGetUsergroupsRecursive, CallCheckRepoInDb,
            CallGetRepogroupRels, CallRollback],
           Inl (Wrap ''error from getRepogroupRels'' err))
      | Inr repogroupRels \<Rightarrow>
     (case getAssignedRoles userId repoId usergroupRels repogroupRels tx of
        Inl err \<Rightarrow>
          ([CallBeginTx, CallCheckUserInDb, CallGetUsergroupsRecursive, CallCheckRepoInDb,
            CallGetRepogroupRels, CallGetAssignedRoles, CallRollback],
           Inl (Wrap ''error from getAssignedRoles'' err))
      | Inr assignedRoles \<Rightarrow>
          ([CallBeginTx, CallCheckUserInDb, CallGetUsergroupsRecursive, CallCheckRepoInDb,
            CallGetRepogroupRels, CallGetAssignedRoles, CallCommit],
           if fails tx QCommitTx then Inl (Wrap ''error when cleaning up sqlite Tx'' ErrDriver)
           else Inr \<lparr>ReqUserId = userId, Username = username,
                  UsergroupRelationships = usergroupRels, ReqRepoId = repoId,
                  RepoName = reponame, RepogroupRels = repogroupRels,
                  AssignedRoles = assignedRoles\<rparr>))))))"

section \<open>Package authz\<close>

text \<open>
  \<^verbatim>\<open>Action\<close> is a Go integer type with three declared constants, numbered by \<^verbatim>\<open>iota\<close>;
  every other integer is a value of the type too.
\<close>

type_synonym Action = int

definition Membership :: Action where "Membership = 0"
definition Read :: Action where "Read = 1"
definition Write :: Action where "Write = 2"

definition membershipStr :: string where "membershipStr = ''membership''"
definition writeStr :: string where "writeStr = ''write''"
definition readStr :: string where "readStr = ''read''"
definition ownerRoleStr :: string where "ownerRoleStr = ''owner''"
definition writerRoleStr :: string where "writerRoleStr = ''writer''"
definition readerRoleStr :: string where "readerRoleStr = ''reader''"

definition roleNS :: string where "roleNS = ''role''"
definition actionNS :: string where "actionNS = ''action''"
definition userNS :: string where "userNS = ''userid''"
definition usergroupNS :: string where "usergroupNS = ''usergroupid''"
definition repoNS :: string where "repoNS = ''repo''"
definition repogroupNS :: string where "repogroupNS = ''repogroupid''"

text \<open>The verb \<^verbatim>\<open>%d\<close> of \<^verbatim>\<open>fmt.Sprintf\<close>: an integer in decimal.\<close>

fun digits :: "nat \<Rightarrow> string" where
  "digits n =
     (if n < 10 then [''0123456789'' ! n]
      else digits (n div 10) @ [''0123456789'' ! (n mod 10)])"

declare digits.simps [simp del]

definition fmt_d :: "int \<Rightarrow> string" where
  "fmt_d i = (if i < 0 then CHR ''-'' # digits (nat (- i)) else digits (nat i))"

definition namespaceAuthz :: "string \<Rightarrow> string \<Rightarrow> string" where
  "namespaceAuthz symbol namespace = namespace @ '':'' @ symbol"

definition namespaceRole :: "string \<Rightarrow> string" where
  "namespaceRole symbol = namespaceAuthz symbol roleNS"

definition namespaceUser :: "int \<Rightarrow> string" where
  "namespaceUser symbol = namespaceAuthz (fmt_d symbol) userNS"

definition namespaceRepo :: "int \<Rightarrow> string" where
  "namespaceRepo symbol = namespaceAuthz (fmt_d symbol) repoNS"

definition namespaceAction :: "string \<Rightarrow> string" where
  "namespaceAction symbol = namespaceAuthz symbol actionNS"

definition namespaceUG :: "int \<Rightarrow> string" where
  "namespaceUG symbol = namespaceAuthz (fmt_d symbol) usergroupNS"

definition namespaceRG :: "int \<Rightarrow> string" where
  "namespaceRG symbol = namespaceAuthz (fmt_d symbol) repogroupNS"

text \<open>
  \<^verbatim>\<open>buildRoleActions\<close> writes the actions of a role as a Datalog array of quoted,
  namespaced strings; the parser reads the array back as the list of those strings.
\<close>

definition buildRoleActions :: "string list \<Rightarrow> string list" where
  "buildRoleActions actions = map (\<lambda>action. namespaceAuthz action actionNS) actions"

subsection \<open>Facts and tokens\<close>

text \<open>
  The facts an authorizer holds, one list for each predicate of the authorizer text and
  of the token. Instants of time are seconds since the epoch.
\<close>

record Facts =
  user_facts :: "string list"
  repo_role_actions_facts :: "(string \<times> string list) list"
  operation_facts :: "(string \<times> string) list"
  time_facts :: "nat list"
  usergroup_facts :: "(string \<times> string) list"
  repogroup_facts :: "(string \<times> string) list"
  role_facts :: "(string \<times> string \<times> string) list"

text \<open>
  A biscuit as far as \<^verbatim>\<open>CheckAuthz\<close> depends on it: the public key under which its
  signatures verify, the \<^verbatim>\<open>user\<close> facts of its authority block and the checks of its
  blocks, each check a condition on the facts of the authorizer. \<^verbatim>\<open>IssueToken\<close> signs
  the single fact \<^verbatim>\<open>user("userid:N")\<close>; \<^verbatim>\<open>AttenuateBiscuit\<close> appends a block with one check.
\<close>

record Biscuit =
  root :: nat
  authority_users :: "string list"
  checks :: "(Facts \<Rightarrow> bool) list"

record TokenIssuer =
  privateRoot :: nat
  PublicRoot :: nat

definition IssueToken :: "TokenIssuer \<Rightarrow> int \<Rightarrow> Biscuit" where
  "IssueToken tokenIssuer userId =
     \<lparr>root = PublicRoot tokenIssuer, authority_users = [namespaceUser userId], checks = []\<rparr>"

definition AttenuateBiscuit :: "Biscuit \<Rightarrow> (Facts \<Rightarrow> bool) \<Rightarrow> Biscuit" where
  "AttenuateBiscuit biscuitToken check = biscuitToken\<lparr>checks := checks biscuitToken @ [check]\<rparr>"

subsection \<open>The rules and the policy of the authorizer\<close>

text \<open>
  The rules of the authorizer text of \<^verbatim>\<open>CheckAuthz\<close>, each as the introduction rule
  of an inductive predicate over the facts, with the variables of the source (\<open>grp\<close>
  for \<^verbatim>\<open>$group\<close>). In the policy \<^verbatim>\<open>allow if\<close> the source writes \<^verbatim>\<open>$userOrgroup\<close> and \<^verbatim>\<open>$repoOrgroup\<close> in the
  authority atoms and \<^verbatim>\<open>$userOrGroup\<close> and \<^verbatim>\<open>$repoOrGroup\<close> in the role atom: four
  different variables.
\<close>

definition starts_with :: "string \<Rightarrow> string \<Rightarrow> bool" where
  "starts_with s p = (take (length p) s = p)"

inductive repo :: "Facts \<Rightarrow> string \<Rightarrow> bool" for w where
  "(action, repoid) \<in> set (operation_facts w) \<Longrightarrow> repo w repoid"

inductive user_authority :: "Facts \<Rightarrow> string \<Rightarrow> string \<Rightarrow> bool" for w where
  "member \<in> set (user_facts w) \<Longrightarrow> user_authority w member member"
| "(grp, member) \<in> set (usergroup_facts w) \<Longrightarrow> starts_with member ''userid:'' \<Longrightarrow>
     user_authority w member grp"
| "(grp, subgroup) \<in> set (usergroup_facts w) \<Longrightarrow> starts_with subgroup ''usergroupid:'' \<Longrightarrow>
     user_authority w member grp \<Longrightarrow> user_authority w member subgroup"

inductive repo_authority :: "Facts \<Rightarrow> string \<Rightarrow> string \<Rightarrow> bool" for w where
  "repo w member \<Longrightarrow> repo_authority w member member"
| "(grp, member) \<in> set (repogroup_facts w) \<Longrightarrow> repo_authority w member grp"

inductive req_role :: "Facts \<Rightarrow> string \<Rightarrow> string \<Rightarrow> bool" for w where
  "(action, repoid) \<in> set (operation_facts w) \<Longrightarrow>
   (role, permissions) \<in> set (repo_role_actions_facts w) \<Longrightarrow>
   action \<in> set permissions \<Longrightarrow> req_role w role action"

inductive allow :: "Facts \<Rightarrow> bool" for w where
  "user \<in> set (user_facts w) \<Longrightarrow>
   (action, repoid) \<in> set (operation_facts w) \<Longrightarrow>
   req_role w role action \<Longrightarrow>
   user_authority w user userOrgroup \<Longrightarrow>
   repo_authority w repoid repoOrgroup \<Longrightarrow>
   (userOrGroup, repoOrGroup, role) \<in> set (role_facts w) \<Longrightarrow> allow w"

code_pred repo .
code_pred user_authority .
code_pred repo_authority .
code_pred req_role .
code_pred allow .

subsection \<open>CheckAuthz\<close>

text \<open>
  \<^verbatim>\<open>log.Fatalf\<close> ends the process: the function does not return to its caller.
  \<open>Exit msg\<close> is that outcome, \<open>Return v\<close> an ordinary return.
\<close>

datatype 'a run = Exit string | Return 'a

definition RepoRoleActions :: "(string \<times> string list) list" where
  "RepoRoleActions =
     [(ownerRoleStr, [membershipStr, writeStr, readStr]),
      (writerRoleStr, [writeStr, readStr]),
      (readerRoleStr, [readStr])]"

text \<open>
  The switch on the operation, which sets the field \<^verbatim>\<open>ActionStr\<close>. Its \<^verbatim>\<open>default\<close>
  branch, taken for every operation other than the three declared constants, ends the
  process.
\<close>

definition ActionStr :: "Action \<Rightarrow> string run" where
  "ActionStr operation =
     (if operation = Membership then Return membershipStr
      else if operation = Read then Return readStr
      else if operation = Write then Return writeStr
      else Exit ''Unknown operation'')"

text \<open>
  The body of the loop over the assigned roles: three switches, each ending the process
  in its \<^verbatim>\<open>default\<close> branch, then the mapping that is appended.
\<close>

definition userOrGroup_switch :: "AssignedRole \<Rightarrow> string run" where
  "userOrGroup_switch dbAssignRole =
     (case UserOrGroup dbAssignRole of
        UserUGR \<Rightarrow> Return (namespaceUser (UserOrGroupID dbAssignRole))
      | UsergroupUGR \<Rightarrow> Return (namespaceUG (UserOrGroupID dbAssignRole))
      | UndefUGR \<Rightarrow> Exit ''Failed to match UserOrGroup in role assignment'')"

definition repoOrGroup_switch :: "AssignedRole \<Rightarrow> string run" where
  "repoOrGroup_switch dbAssignRole =
     (case RepoOrGroup dbAssignRole of
        RepoUGR \<Rightarrow> Return (namespaceRepo (RepoOrGroupID dbAssignRole))
      | RepogroupUGR \<Rightarrow> Return (namespaceRG (RepoOrGroupID dbAssignRole))
      | UndefRGR \<Rightarrow> Exit ''Failed to match RepoOrGroup in role assignment'')"

definition roleName_switch :: "AssignedRole \<Rightarrow> string run" where
  "roleName_switch dbAssignRole =
     (case RepoRole dbAssignRole of
        OwnerRole \<Rightarrow> Return (namespaceRole ownerRoleStr)
      | ReaderRole \<Rightarrow> Return (namespaceRole readerRoleStr)
      | WriterRole \<Rightarrow> Return (namespaceRole writerRoleStr)
      | UnknownRole \<Rightarrow> Exit ''Failed to match RepoRole in role assignment'')"

definition assignedRoleMapping :: "AssignedRole \<Rightarrow> (string \<times> string \<times> string) run" where
  "assignedRoleMapping dbAssignRole =
     (case userOrGroup_switch dbAssignRole of
        Exit msg \<Rightarrow> Exit msg
      | Return userOrGroup \<Rightarrow>
     (case repoOrGroup_switch dbAssignRole of
        Exit msg \<Rightarrow> Exit msg
      | Return repoOrGroup \<Rightarrow>
     (case roleName_switch dbAssignRole of
        Exit msg \<Rightarrow> Exit msg
      | Return roleName \<Rightarrow> Return (userOrGroup, repoOrGroup, roleName))))"

fun assignedRoles_loop ::
  "AssignedRole list \<Rightarrow> (string \<times> string \<times> string) list \<Rightarrow> (string \<times> string \<times> string) list run"
where
  "assignedRoles_loop [] assignedRoles = Return assignedRoles"
| "assignedRoles_loop (dbAssignRole # rest) assignedRoles =
     (case assignedRoleMapping dbAssignRole of
        Exit msg \<Rightarrow> Exit msg
      | Return m \<Rightarrow> assignedRoles_loop rest (assignedRoles @ [m]))"

text \<open>
  The facts the authorizer holds once the text made from the template is added to the
  authorizer of the token: the \<^verbatim>\<open>user\<close> facts of the token and the facts of the template,
  in the template's order, for the action string that the switch on the operation has
  set.
\<close>

definition authorizer_facts ::
  "Biscuit \<Rightarrow> RequestDetails \<Rightarrow> string \<Rightarrow> nat \<Rightarrow> (string \<times> string \<times> string) list \<Rightarrow> Facts"
where
  "authorizer_facts token reqDetails actionStr dateTime assignedRoles =
     \<lparr>user_facts = authority_users token,
      repo_role_actions_facts =
        map (\<lambda>(roleName, roleAllowedActions).
               (namespaceRole roleName, buildRoleActions roleAllowedActions)) RepoRoleActions,
      operation_facts =
        [(namespaceAction actionStr, namespaceRepo (ReqRepoId reqDetails))],
      time_facts = [dateTime],
      usergroup_facts =
        map (\<lambda>u. (namespaceUG (UsergroupId u), namespaceUser (UserId u)))
          (UserInGroups (UsergroupRelationships reqDetails)) @
        map (\<lambda>g. (namespaceUG (ParentUsergroupId g), namespaceUG (ChildUsergroupId g)))
          (UserGroupInGroups (UsergroupRelationships reqDetails)),
      repogroup_facts =
        map (\<lambda>r. (namespaceRG (RepogroupId r), namespaceRepo (RepoId r)))
          (RepogroupRels reqDetails),
      role_facts = assignedRoles\<rparr>"

text \<open>
  What the call depends on beyond its arguments: the clock, and whether the evaluator
  gives up because one of its run limits is reached.
\<close>

record Runtime =
  now :: nat
  run_limit_reached :: bool

text \<open>
  \<^verbatim>\<open>Authorize\<close> of the biscuit library: it derives the facts, verifies the checks of
  the token and then looks for a policy that matches; the authorizer of \<^verbatim>\<open>CheckAuthz\<close>
  has the single policy \<^verbatim>\<open>allow if\<close>.
\<close>

definition Authorize :: "Runtime \<Rightarrow> Biscuit \<Rightarrow> Facts \<Rightarrow> error option" where
  "Authorize rt token w =
     (if run_limit_reached rt then Some ErrRunLimit
      else if \<not> list_all (\<lambda>check. check w) (checks token) then Some ErrFailedCheck
      else if allow w then None
      else Some ErrNoMatchingPolicy)"

text \<open>
  The result is the Go pair of a \<^verbatim>\<open>bool\<close> and an \<^verbatim>\<open>error\<close>, \<open>None\<close> for \<^verbatim>\<open>nil\<close>.
  The steps follow the source: the switch on the operation, the loop over the assigned
  roles, the authorizer of the token, which fails when the token does not verify under
  \<^verbatim>\<open>publicRoot\<close>, and \<^verbatim>\<open>Authorize\<close>. Executing the template and parsing its output, a text made of the
  fixed template, decimal ids and the fixed names, are taken to succeed.
\<close>

definition CheckAuthz ::
  "Runtime \<Rightarrow> Biscuit \<Rightarrow> nat \<Rightarrow> RequestDetails \<Rightarrow> Action \<Rightarrow> (bool \<times> error option) run"
where
  "CheckAuthz rt token publicRoot reqDetails operation =
     (case ActionStr operation of
        Exit msg \<Rightarrow> Exit msg
      | Return actionStr \<Rightarrow>
     (case assignedRoles_loop (AssignedRoles reqDetails) [] of
        Exit msg \<Rightarrow> Exit msg
      | Return assignedRoles \<Rightarrow>
          if root token \<noteq> publicRoot
          then Return (False,
                 Some (Flat ''error when verifying token and creating authorizer'' ErrVerification))
          else (case Authorize rt token
                       (authorizer_facts token reqDetails actionStr (now rt) assignedRoles) of
                  Some err \<Rightarrow> Return (False, Some (Flat ''error in Authorize'' err))
                | None \<Rightarrow> Return (True, None))))"

section \<open>The example data\<close>

text \<open>The rows that \<^verbatim>\<open>db-init.sql\<close> inserts, with a driver that does not fail.\<close>

definition init_db :: Tx where
  "init_db =
     \<lparr>Users = [(1, ''Olivia''), (2, ''Noah''), (3, ''Emma''), (4, ''Liam''), (5, ''Tony'')],
      Repos = [(1, ''Alpha''), (2, ''Bravo''), (3, ''Charlie'')],
      UserGroup_membership_users = [(1, 4), (1, 3), (3, 5)],
      UserGroup_membership_usergroups = [(1, 2), (2, 3)],
      RepoGroup_membership = [(1, 2), (1, 3)],
      repo_roles_enum = [(1, ''reader''), (2, ''writer''), (3, ''owner'')],
      repogroup_roles_enum = [(1, ''reader''), (2, ''writer'')],
      Repo_Roles_membership_Users = [(3, 1, 3), (3, 2, 1)],
      Repo_Roles_membership_UserGroups = [],
      RepoGroup_Roles_membership_Users = [],
      RepoGroup_Roles_membership_Usergroup = [(1, 1, 2)],
      fails = (\<lambda>_. False)\<rparr>"

text \<open>The same store with a cycle in the nesting: 1 is the parent of 2 and 2 of 1.\<close>

definition cyclic_db :: Tx where
  "cyclic_db = init_db\<lparr>UserGroup_membership_usergroups := [(1, 2), (2, 1)]\<rparr>"

text \<open>
  The same store with a nesting in which usergroup 4 is a child of 2 and of 3, both
  children of 1.
\<close>

definition diamond_db :: Tx where
  "diamond_db = init_db\<lparr>UserGroup_membership_usergroups := [(1, 2), (1, 3), (2, 4), (3, 4)]\<rparr>"

text \<open>
  The request of \<^verbatim>\<open>main.go\<close>: user 4 asks to read the repo Charlie. Its token is issued
  for user 4 and attenuated with the check that the time of the request is not after
  2100-03-30T19:00:10Z, which is 4110116410 seconds after the epoch. The request
  details are those gathered from the example data, see \<open>GatherRequestDetails_main\<close>.
\<close>

definition main_issuer :: TokenIssuer where
  "main_issuer = \<lparr>privateRoot = 1, PublicRoot = 2\<rparr>"

definition main_token :: Biscuit where
  "main_token =
     AttenuateBiscuit (IssueToken main_issuer 4)
       (\<lambda>w. list_ex (\<lambda>date. date \<le> 4110116410) (time_facts w))"

definition main_request :: RequestDetails where
  "main_request =
     \<lparr>ReqUserId = 4, Username = ''Liam'',
      UsergroupRelationships =
        \<lparr>UserInGroups = [\<lparr>UserId = 4, UsergroupId = 1\<rparr>],
         UserGroupInGroups =
           [\<lparr>ParentUsergroupId = 1, ChildUsergroupId = 2\<rparr>,
            \<lparr>ParentUsergroupId = 2, ChildUsergroupId = 3\<rparr>]\<rparr>,
      ReqRepoId = 3, RepoName = ''Charlie'',
      RepogroupRels = [\<lparr>RepogroupId = 1, RepoId = 3\<rparr>],
      AssignedRoles =
        [\<lparr>UserOrGroup = UsergroupUGR, UserOrGroupID = 1, RepoOrGroup = RepogroupUGR,
          RepoOrGroupID = 1, RepoRole = WriterRole\<rparr>]\<rparr>"

text \<open>
  A request without any assigned role: user 1 asks to read the repo Alpha, with a token
  issued for user 1 and not attenuated.
\<close>

definition alpha_request :: RequestDetails where
  "alpha_request =
     \<lparr>ReqUserId = 1, Username = ''Olivia'',
      UsergroupRelationships = \<lparr>UserInGroups = [], UserGroupInGroups = []\<rparr>,
      ReqRepoId = 1, RepoName = ''Alpha'', RepogroupRels = [], AssignedRoles = []\<rparr>"

text \<open>
  The request of \<^verbatim>\<open>main.go\<close> with the zero value of \<^verbatim>\<open>AssignedRole\<close> as its only
  assigned role.
\<close>

definition untagged_request :: RequestDetails where
  "untagged_request =
     main_request\<lparr>AssignedRoles :=
       [\<lparr>UserOrGroup = UndefUGR, UserOrGroupID = 0, RepoOrGroup = UndefRGR,
         RepoOrGroupID = 0, RepoRole = UnknownRole\<rparr>]\<rparr>"

text \<open>
  The example data with a third repogroup role named \<open>owner\<close>, given to user 4 on
  repogroup 1: a store that breaks the rule that repogroups have no owners.
\<close>

definition owner_db :: Tx where
  "owner_db =
     init_db\<lparr>repogroup_roles_enum := [(1, ''reader''), (2, ''writer''), (3, ''owner'')],
             RepoGroup_Roles_membership_Users := [(1, 4, 3)]\<rparr>"

section \<open>Notions used in the statements\<close>

text \<open>
  The notions of graph theory in which the results on the usergroup query are stated:
  one step of the recursive select as a relation on rows, the usergroups a user is a
  direct member of, and the usergroups reachable from those along the nesting, from
  parent to child.
\<close>

definition ugs_step :: "(int \<times> int) list \<Rightarrow> (ugs_row \<times> ugs_row) set" where
  "ugs_step nesting = {(r, r'). r' \<in> set (ugs_recursive nesting r)}"

definition direct_groups :: "Tx \<Rightarrow> int \<Rightarrow> int set" where
  "direct_groups tx userId = {g. (g, userId) \<in> set (UserGroup_membership_users tx)}"

definition reachable_groups :: "Tx \<Rightarrow> int \<Rightarrow> int set" where
  "reachable_groups tx userId =
     (set (UserGroup_membership_usergroups tx))\<^sup>* `` direct_groups tx userId"

text \<open>
  An assigned role is relevant to a request when its role is a decoded one, its
  principal is the user or one of the given usergroups, and its resource is the repo
  or one of the given repogroups.
\<close>

definition relevant_role :: "int \<Rightarrow> int \<Rightarrow> int list \<Rightarrow> int list \<Rightarrow> AssignedRole \<Rightarrow> bool" where
  "relevant_role userId repoId ugIds rgIds a \<longleftrightarrow>
     RepoRole a \<noteq> UnknownRole \<and>
     (UserOrGroup a = UserUGR \<and> UserOrGroupID a = userId \<or>
      UserOrGroup a = UsergroupUGR \<and> UserOrGroupID a \<in> set ugIds) \<and>
     (RepoOrGroup a = RepoUGR \<and> RepoOrGroupID a = repoId \<or>
      RepoOrGroup a = RepogroupUGR \<and> RepoOrGroupID a \<in> set rgIds)"

section \<open>The rows of the usergroup query\<close>

lemma ugs_queue_set:
  "set queue \<subseteq> set seen \<Longrightarrow>
   (\<forall>r \<in> set seen - set queue. set (ugs_recursive nesting r) \<subseteq> set seen) \<Longrightarrow>
   set (ugs_queue nesting seen queue) = (ugs_step nesting)\<^sup>* `` set seen"
proof (induction nesting seen queue rule: ugs_queue.induct)
  case (1 nesting seen)
  then have closed: "ugs_step nesting `` set seen \<subseteq> set seen"
    by (auto simp: ugs_step_def)
  have "(ugs_step nesting)\<^sup>* `` set seen \<subseteq> set seen"
    by (rule Image_closed_trancl [THEN equalityD1]) (rule closed)
  then show ?case by auto
next
  case (2 nesting seen r queue)
  define new where "new = union_new seen (ugs_recursive nesting r)"
  have new_set: "set new = set (ugs_recursive nesting r) - set seen"
    by (simp add: new_def set_union_new)
  have r_seen: "r \<in> set seen" using "2.prems"(1) by simp
  have q: "set (queue @ new) \<subseteq> set (seen @ new)"
    using "2.prems"(1) by auto
  have c: "\<forall>x \<in> set (seen @ new) - set (queue @ new).
             set (ugs_recursive nesting x) \<subseteq> set (seen @ new)"
  proof
    fix x assume x: "x \<in> set (seen @ new) - set (queue @ new)"
    show "set (ugs_recursive nesting x) \<subseteq> set (seen @ new)"
    proof (cases "x = r")
      case True
      then show ?thesis using new_set by auto
    next
      case False
      with x have "x \<in> set seen - set (r # queue)" by auto
      with "2.prems"(2) show ?thesis by auto
    qed
  qed
  have "set (ugs_queue nesting (seen @ new) (queue @ new))
          = (ugs_step nesting)\<^sup>* `` set (seen @ new)"
    using "2.IH" [OF new_def q c] .
  moreover have "(ugs_step nesting)\<^sup>* `` set (seen @ new) = (ugs_step nesting)\<^sup>* `` set seen"
  proof -
    have "set new \<subseteq> (ugs_step nesting)\<^sup>* `` set seen"
      using new_set r_seen by (auto simp: ugs_step_def)
    then have "(ugs_step nesting)\<^sup>* `` set new \<subseteq> (ugs_step nesting)\<^sup>* `` set seen"
      by (auto intro: rtrancl_trans)
    then show ?thesis by (auto simp: Image_Un)
  qed
  ultimately show ?case by (simp add: new_def Let_def)
qed

lemma set_ugs:
  "set (ugs tx userId) =
     (ugs_step (UserGroup_membership_usergroups tx))\<^sup>* ``
       set (ugs_initial (UserGroup_membership_users tx) userId)"
  unfolding ugs_def Let_def
  by (subst ugs_queue_set) (simp_all add: set_union_new)

lemma set_ugs_initial:
  "set (ugs_initial members userId) = {(g, None) |g. (g, userId) \<in> set members}"
  by (auto simp: ugs_initial_def)

lemma ugs_step_iff:
  "(r, r') \<in> ugs_step nesting \<longleftrightarrow>
     (\<exists>p c. r' = (p, Some c) \<and> (p, c) \<in> set nesting \<and> (p = fst r \<or> Some p = snd r))"
  by (auto simp: ugs_step_def ugs_recursive_def)

lemma ugs_sound:
  assumes "(r0, r) \<in> (ugs_step (UserGroup_membership_usergroups tx))\<^sup>*"
    and "r0 \<in> set (ugs_initial (UserGroup_membership_users tx) userId)"
  shows "fst r \<in> reachable_groups tx userId \<and>
         (case snd r of
            None \<Rightarrow> (fst r, userId) \<in> set (UserGroup_membership_users tx)
          | Some c \<Rightarrow> (fst r, c) \<in> set (UserGroup_membership_usergroups tx))"
  using assms
proof (induction rule: rtrancl_induct)
  case base
  then show ?case
    by (auto simp: set_ugs_initial reachable_groups_def direct_groups_def)
next
  case (step y z)
  then have y: "fst y \<in> reachable_groups tx userId"
    and y': "\<And>c. snd y = Some c \<Longrightarrow> (fst y, c) \<in> set (UserGroup_membership_usergroups tx)"
    by auto
  from step.hyps(2) obtain p c where z: "z = (p, Some c)"
    and e: "(p, c) \<in> set (UserGroup_membership_usergroups tx)"
    and m: "p = fst y \<or> Some p = snd y"
    by (auto simp: ugs_step_iff)
  have "p \<in> reachable_groups tx userId"
  proof (cases "p = fst y")
    case True
    with y show ?thesis by simp
  next
    case False
    with m have "snd y = Some p" by simp
    from y' [OF this] y show ?thesis
      unfolding reachable_groups_def by (auto intro: rtrancl_into_rtrancl)
  qed
  with z e show ?case by simp
qed

lemma ugs_mentions:
  assumes "g \<in> reachable_groups tx userId"
  shows "\<exists>r \<in> set (ugs tx userId). g = fst r \<or> Some g = snd r"
proof -
  from assms obtain d where d: "d \<in> direct_groups tx userId"
    and dg: "(d, g) \<in> (set (UserGroup_membership_usergroups tx))\<^sup>*"
    by (auto simp: reachable_groups_def)
  from dg show ?thesis
  proof (induction rule: rtrancl_induct)
    case base
    have "(d, None) \<in> set (ugs tx userId)"
      using d by (auto simp: set_ugs set_ugs_initial direct_groups_def)
    then show ?case by force
  next
    case (step y z)
    then obtain r where r: "r \<in> set (ugs tx userId)" and m: "y = fst r \<or> Some y = snd r"
      by auto
    have "(r, (y, Some z)) \<in> ugs_step (UserGroup_membership_usergroups tx)"
      using step.hyps(2) m by (auto simp: ugs_step_iff)
    with r have "(y, Some z) \<in> set (ugs tx userId)"
      by (auto simp: set_ugs intro: rtrancl_into_rtrancl)
    then show ?case by force
  qed
qed

lemma ugs_row_iff:
  "(g, c) \<in> set (ugs tx userId) \<longleftrightarrow>
     (case c of
        None \<Rightarrow> g \<in> direct_groups tx userId
      | Some c' \<Rightarrow> g \<in> reachable_groups tx userId \<and>
                   (g, c') \<in> set (UserGroup_membership_usergroups tx))"
proof
  assume "(g, c) \<in> set (ugs tx userId)"
  then obtain r0 where "r0 \<in> set (ugs_initial (UserGroup_membership_users tx) userId)"
    and "(r0, (g, c)) \<in> (ugs_step (UserGroup_membership_usergroups tx))\<^sup>*"
    by (auto simp: set_ugs)
  from ugs_sound [OF this(2) this(1)] show
    "case c of None \<Rightarrow> g \<in> direct_groups tx userId
     | Some c' \<Rightarrow> g \<in> reachable_groups tx userId \<and>
                  (g, c') \<in> set (UserGroup_membership_usergroups tx)"
    by (auto simp: direct_groups_def split: option.splits)
next
  assume rhs: "case c of None \<Rightarrow> g \<in> direct_groups tx userId
     | Some c' \<Rightarrow> g \<in> reachable_groups tx userId \<and>
                  (g, c') \<in> set (UserGroup_membership_usergroups tx)"
  show "(g, c) \<in> set (ugs tx userId)"
  proof (cases c)
    case None
    with rhs show ?thesis
      by (auto simp: set_ugs set_ugs_initial direct_groups_def)
  next
    case (Some c')
    with rhs have g: "g \<in> reachable_groups tx userId"
      and e: "(g, c') \<in> set (UserGroup_membership_usergroups tx)" by auto
    from ugs_mentions [OF g] obtain r where r: "r \<in> set (ugs tx userId)"
      and m: "g = fst r \<or> Some g = snd r" by auto
    have "(r, (g, Some c')) \<in> ugs_step (UserGroup_membership_usergroups tx)"
      using e m by (auto simp: ugs_step_iff)
    with r Some show ?thesis
      by (auto simp: set_ugs intro: rtrancl_into_rtrancl)
  qed
qed

text \<open>
  The usergroups a row expands are those whose nesting rows the recursive select
  returns for it.
\<close>

lemma ugs_recursive_expanded:
  "set (ugs_recursive nesting r) =
     {(p, Some c) |p c. (p, c) \<in> set nesting \<and> p \<in> set (ugs_expanded r)}"
  by (auto simp: ugs_recursive_def ugs_expanded_def split: option.splits)

lemma distinct_ugs_queue:
  "distinct seen \<Longrightarrow> distinct (ugs_queue nesting seen queue)"
  by (induction nesting seen queue rule: ugs_queue.induct)
     (auto simp: Let_def distinct_union_new set_union_new)

lemma distinct_ugs: "distinct (ugs tx userId)"
  by (simp add: ugs_def Let_def distinct_ugs_queue distinct_union_new)

lemma scan_usergroups_eq:
  "scan_usergroups userId rows us gs =
     \<lparr>UserInGroups = us @ [\<lparr>UserId = userId, UsergroupId = g\<rparr>. (g, None) \<leftarrow> rows],
      UserGroupInGroups =
        gs @ [\<lparr>ParentUsergroupId = g, ChildUsergroupId = c\<rparr>. (g, Some c) \<leftarrow> rows]\<rparr>"
  by (induction userId rows us gs rule: scan_usergroups.induct) auto

lemma set_map_store_fold:
  "set (fold (\<lambda>x m. map_store m (f x)) xs m0) = set m0 \<union> f ` set xs"
  by (induction xs arbitrary: m0) (auto simp: map_store_def)

lemma distinct_map_store_fold:
  "distinct m0 \<Longrightarrow> distinct (fold (\<lambda>x m. map_store m (f x)) xs m0)"
  by (induction xs arbitrary: m0) (auto simp: map_store_def)

lemma set_usergroupIds:
  "set (usergroupIds rels) =
     UsergroupId ` set (UserInGroups rels) \<union> ChildUsergroupId ` set (UserGroupInGroups rels)"
  by (auto simp: usergroupIds_def set_map_store_fold)

lemma getUsergroupsRecursive_Inr:
  "getUsergroupsRecursive userId tx = Inr rels \<longleftrightarrow>
     \<not> fails tx QUsergroups \<and>
     rels = \<lparr>UserInGroups = [\<lparr>UserId = userId, UsergroupId = g\<rparr>. (g, None) \<leftarrow> ugs tx userId],
             UserGroupInGroups =
               [\<lparr>ParentUsergroupId = g, ChildUsergroupId = c\<rparr>. (g, Some c) \<leftarrow> ugs tx userId]\<rparr>"
  by (auto simp: getUsergroupsRecursive_def scan_usergroups_eq)

lemma closure_groups:
  assumes "getUsergroupsRecursive userId tx = Inr rels"
  shows "set (usergroupIds rels) = reachable_groups tx userId"
proof -
  let ?rows = "set (ugs tx userId)"
  have u: "UsergroupId ` set (UserInGroups rels) = {g. (g, None) \<in> ?rows}"
    using assms by (force simp: getUsergroupsRecursive_Inr)
  have c: "ChildUsergroupId ` set (UserGroupInGroups rels) = {c. \<exists>g. (g, Some c) \<in> ?rows}"
    using assms by (force simp: getUsergroupsRecursive_Inr)
  have "{g. (g, None) \<in> ?rows} \<union> {c. \<exists>g. (g, Some c) \<in> ?rows} = reachable_groups tx userId"
    (is "?A \<union> ?B = ?R")
  proof (intro equalityI subsetI)
    fix x assume "x \<in> ?A \<union> ?B"
    then show "x \<in> ?R"
      by (auto simp: ugs_row_iff reachable_groups_def intro: rtrancl_into_rtrancl)
  next
    fix x assume "x \<in> ?R"
    then obtain d where d: "d \<in> direct_groups tx userId"
      and dx: "(d, x) \<in> (set (UserGroup_membership_usergroups tx))\<^sup>*"
      by (auto simp: reachable_groups_def)
    from dx show "x \<in> ?A \<union> ?B"
    proof (cases rule: rtranclE)
      case base
      with d show ?thesis by (simp add: ugs_row_iff)
    next
      case (step y)
      then have "y \<in> reachable_groups tx userId"
        using d by (auto simp: reachable_groups_def)
      with step have "(y, Some x) \<in> ?rows" by (simp add: ugs_row_iff)
      then show ?thesis by blast
    qed
  qed
  with u c show ?thesis by (simp add: set_usergroupIds)
qed

lemma closure_parents:
  assumes "getUsergroupsRecursive userId tx = Inr rels"
  shows "ParentUsergroupId ` set (UserGroupInGroups rels) \<subseteq> reachable_groups tx userId"
  using assms by (force simp: getUsergroupsRecursive_Inr ugs_row_iff)

lemma reachable_groups_mono:
  assumes "UserGroup_membership_users tx' = UserGroup_membership_users tx"
    and "set (UserGroup_membership_usergroups tx) \<subseteq> set (UserGroup_membership_usergroups tx')"
  shows "reachable_groups tx userId \<subseteq> reachable_groups tx' userId"
  using assms rtrancl_mono [OF assms(2)]
  by (auto simp: reachable_groups_def direct_groups_def)

lemma scan_usergroups_length:
  "length (UserInGroups (scan_usergroups userId rows us gs)) +
   length (UserGroupInGroups (scan_usergroups userId rows us gs)) =
     length us + length gs + length rows"
  by (induction userId rows us gs rule: scan_usergroups.induct) auto

section \<open>The policy and CheckAuthz\<close>

lemma user_authority_self: "user \<in> set (user_facts w) \<Longrightarrow> \<exists>x. user_authority w user x"
  by (blast intro: user_authority.intros)

lemma repo_authority_self:
  "(action, repoid) \<in> set (operation_facts w) \<Longrightarrow> \<exists>y. repo_authority w repoid y"
  by (blast intro: repo_authority.intros repo.intros)

lemma req_role_iff:
  "req_role w role action \<longleftrightarrow>
     (\<exists>repoid. (action, repoid) \<in> set (operation_facts w)) \<and>
     (\<exists>permissions. (role, permissions) \<in> set (repo_role_actions_facts w) \<and>
        action \<in> set permissions)"
  by (auto elim: req_role.cases intro: req_role.intros)

text \<open>
  The policy as a computation on the lists of facts. The authority atoms of the policy
  bind variables that occur nowhere else, so they hold as soon as there is a user and
  an operation: the policy asks for a role fact with a role that permits the action,
  whatever the principal and the resource of that fact are.
\<close>

lemma allow_iff [code]:
  "allow w \<longleftrightarrow>
     user_facts w \<noteq> [] \<and>
     list_ex (\<lambda>(action, repoid).
        list_ex (\<lambda>(userOrGroup, repoOrGroup, role).
          list_ex (\<lambda>(role', permissions). role' = role \<and> action \<in> set permissions)
            (repo_role_actions_facts w))
          (role_facts w))
       (operation_facts w)"
  (is "?L \<longleftrightarrow> ?R")
proof
  assume ?L
  then show ?R
  proof cases
    case (1 user action repoid role userOrgroup repoOrgroup userOrGroup repoOrGroup)
    from 1(3) obtain permissions where
      "(role, permissions) \<in> set (repo_role_actions_facts w)" "action \<in> set permissions"
      by (auto simp: req_role_iff)
    with 1 show ?thesis
      by (fastforce simp: list_ex_iff)
  qed
next
  assume ?R
  then obtain user where u: "user \<in> set (user_facts w)"
    by (cases "user_facts w") auto
  from \<open>?R\<close> obtain action repoid userOrGroup repoOrGroup role permissions where
    o: "(action, repoid) \<in> set (operation_facts w)" and
    r: "(userOrGroup, repoOrGroup, role) \<in> set (role_facts w)" and
    p: "(role, permissions) \<in> set (repo_role_actions_facts w)" "action \<in> set permissions"
    by (auto simp: list_ex_iff)
  from user_authority_self [OF u] obtain x where x: "user_authority w user x" ..
  from repo_authority_self [OF o] obtain y where y: "repo_authority w repoid y" ..
  have "req_role w role action" using o p by (auto simp: req_role_iff)
  from allow.intros [OF u o this x y r] show ?L .
qed

lemma namespaceAuthz_eq: "namespaceAuthz a ns = namespaceAuthz b ns \<longleftrightarrow> a = b"
  by (simp add: namespaceAuthz_def)

lemma namespaceAction_in_buildRoleActions:
  "namespaceAction a \<in> set (buildRoleActions as) \<longleftrightarrow> a \<in> set as"
  by (auto simp: buildRoleActions_def namespaceAction_def namespaceAuthz_eq)

lemma allow_authorizer_facts:
  "allow (authorizer_facts token rd actionStr t rs) \<longleftrightarrow>
     authority_users token \<noteq> [] \<and>
     (\<exists>(u, r, role) \<in> set rs. \<exists>(roleName, allowed) \<in> set RepoRoleActions.
        namespaceRole roleName = role \<and> actionStr \<in> set allowed)"
  by (auto simp: allow_iff authorizer_facts_def list_ex_iff namespaceAction_in_buildRoleActions
      split: prod.splits)

lemma assignedRoles_loop_Return:
  "assignedRoles_loop as acc = Return rs \<longleftrightarrow>
     (\<exists>ms. map assignedRoleMapping as = map Return ms \<and> rs = acc @ ms)"
proof (induction as arbitrary: acc)
  case Nil
  then show ?case by auto
next
  case (Cons a as)
  show ?case
  proof (cases "assignedRoleMapping a")
    case (Exit msg)
    then show ?thesis by (auto simp: map_eq_Cons_conv)
  next
    case (Return m)
    then show ?thesis by (auto simp: Cons.IH map_eq_Cons_conv)
  qed
qed

lemma assignedRoleMapping_Return:
  "assignedRoleMapping a = Return (u, r, role) \<longleftrightarrow>
     userOrGroup_switch a = Return u \<and> repoOrGroup_switch a = Return r \<and>
     roleName_switch a = Return role"
  by (auto simp: assignedRoleMapping_def split: run.splits)

lemma assignedRoles_loop_roles:
  assumes "assignedRoles_loop as [] = Return rs"
  shows "(\<exists>(u, r, role) \<in> set rs. P role) \<longleftrightarrow>
         (\<exists>a \<in> set as. \<exists>role. roleName_switch a = Return role \<and> P role)"
proof -
  from assms have m: "map assignedRoleMapping as = map Return rs"
    by (simp add: assignedRoles_loop_Return)
  show ?thesis
  proof
    assume "\<exists>(u, r, role) \<in> set rs. P role"
    then obtain u r role where "(u, r, role) \<in> set rs" and p: "P role" by auto
    then have "Return (u, r, role) \<in> set (map assignedRoleMapping as)"
      unfolding m by simp
    then obtain a where "a \<in> set as" "assignedRoleMapping a = Return (u, r, role)"
      by auto
    with p show "\<exists>a \<in> set as. \<exists>role. roleName_switch a = Return role \<and> P role"
      by (auto simp: assignedRoleMapping_Return)
  next
    assume "\<exists>a \<in> set as. \<exists>role. roleName_switch a = Return role \<and> P role"
    then obtain a role where a: "a \<in> set as" and s: "roleName_switch a = Return role"
      and p: "P role" by auto
    from a have "assignedRoleMapping a \<in> set (map Return rs)"
      unfolding m [symmetric] by simp
    then obtain x where "x \<in> set rs" "assignedRoleMapping a = Return x" by auto
    with s p show "\<exists>(u, r, role) \<in> set rs. P role"
      by (cases x) (auto simp: assignedRoleMapping_Return)
  qed
qed

lemma assignedRoleMapping_Exit:
  "(\<exists>msg. assignedRoleMapping a = Exit msg) \<longleftrightarrow>
     UserOrGroup a = UndefUGR \<or> RepoOrGroup a = UndefRGR \<or> RepoRole a = UnknownRole"
  by (auto simp: assignedRoleMapping_def userOrGroup_switch_def repoOrGroup_switch_def
      roleName_switch_def
      split: run.splits UserOrGroupRel.splits RepoOrGroupRel.splits RepoRoleType.splits)

lemma assignedRoles_loop_Exit:
  "(\<exists>msg. assignedRoles_loop as acc = Exit msg) \<longleftrightarrow>
     (\<exists>a \<in> set as. UserOrGroup a = UndefUGR \<or> RepoOrGroup a = UndefRGR \<or>
        RepoRole a = UnknownRole)"
proof (induction as arbitrary: acc)
  case Nil
  then show ?case by simp
next
  case (Cons a as)
  show ?case
  proof (cases "assignedRoleMapping a")
    case (Exit msg)
    with assignedRoleMapping_Exit [of a] show ?thesis by auto
  next
    case (Return m)
    with assignedRoleMapping_Exit [of a] show ?thesis by (auto simp: Cons.IH)
  qed
qed

lemma CheckAuthz_True:
  "ActionStr op = Return actionStr \<Longrightarrow>
   CheckAuthz rt token publicRoot rd op = Return (True, None) \<longleftrightarrow>
     (\<exists>rs. assignedRoles_loop (AssignedRoles rd) [] = Return rs \<and>
        root token = publicRoot \<and> \<not> run_limit_reached rt \<and>
        list_all (\<lambda>check. check (authorizer_facts token rd actionStr (now rt) rs)) (checks token) \<and>
        allow (authorizer_facts token rd actionStr (now rt) rs))"
  by (auto simp: CheckAuthz_def Authorize_def split: run.splits option.splits if_splits)

lemma CheckAuthz_not_False_None:
  "CheckAuthz rt token publicRoot rd op \<noteq> Return (False, None)"
  by (auto simp: CheckAuthz_def split: run.splits option.splits if_splits)

lemma CheckAuthz_Exit:
  "(\<exists>msg. CheckAuthz rt token publicRoot rd op = Exit msg) \<longleftrightarrow>
     (\<exists>msg. ActionStr op = Exit msg) \<or>
     (\<exists>msg. assignedRoles_loop (AssignedRoles rd) [] = Exit msg)"
  by (auto simp: CheckAuthz_def split: run.splits option.splits if_splits)

lemma ActionStr_Exit:
  "(\<exists>msg. ActionStr op = Exit msg) \<longleftrightarrow> op \<notin> {Membership, Read, Write}"
  by (auto simp: ActionStr_def)

lemma CheckAuthz_authorize:
  "ActionStr op = Return actionStr \<Longrightarrow>
   assignedRoles_loop (AssignedRoles rd) [] = Return rs \<Longrightarrow> root token = publicRoot \<Longrightarrow>
   CheckAuthz rt token publicRoot rd op =
     (case Authorize rt token (authorizer_facts token rd actionStr (now rt) rs) of
        Some err \<Rightarrow> Return (False, Some (Flat ''error in Authorize'' err))
      | None \<Rightarrow> Return (True, None))"
  by (simp add: CheckAuthz_def)

section \<open>Decoding the rows of the role statements\<close>

lemma decode_rows_Inr:
  "decode_rows b label mk rows acc = Inr rs \<Longrightarrow> r \<in> set rows \<Longrightarrow>
   \<exists>role. repoRoleStrToEnum (label r) b = Inr role"
  by (induction rows arbitrary: acc) (auto split: sum.splits)

lemma decode_rows_no_owner:
  "decode_rows True label mk rows acc = Inr rs \<Longrightarrow> \<forall>r \<in> set rows. label r \<noteq> ''owner''"
  by (auto dest!: decode_rows_Inr simp: repoRoleStrToEnum_def)

lemma decode_rows_known:
  "\<forall>r \<in> set rows. label r \<in> {''owner'', ''reader'', ''writer''} \<Longrightarrow>
   decode_rows b label mk rows acc = Inl e \<Longrightarrow>
   b \<and> e = Wrap ''error when mapping db role to enum'' ErrOwnerOnRepogroup"
  by (induction rows arbitrary: acc)
     (auto simp: repoRoleStrToEnum_def split: sum.splits if_splits)

lemma getUserRepoRolesQuery_labels:
  "snd ` set (repo_roles_enum tx) \<subseteq> K \<Longrightarrow>
   \<forall>r \<in> set (getUserRepoRolesQuery tx repoId userId). r \<in> K"
  by (fastforce simp: getUserRepoRolesQuery_def)

lemma getUsergroupRepoRolesQuery_labels:
  "snd ` set (repo_roles_enum tx) \<subseteq> K \<Longrightarrow>
   \<forall>r \<in> set (getUsergroupRepoRolesQuery tx repoId ugIds). snd r \<in> K"
  by (fastforce simp: getUsergroupRepoRolesQuery_def)

lemma getUserRepogroupRolesQuery_labels:
  "snd ` set (repogroup_roles_enum tx) \<subseteq> K \<Longrightarrow>
   \<forall>r \<in> set (getUserRepogroupRolesQuery tx userId rgIds). snd r \<in> K"
  by (fastforce simp: getUserRepogroupRolesQuery_def)

lemma getUsergroupRepogroupRolesQuery_labels:
  "snd ` set (repogroup_roles_enum tx) \<subseteq> K \<Longrightarrow>
   \<forall>r \<in> set (getUsergroupRepogroupRolesQuery tx ugIds rgIds).
      (\<lambda>(_, _, roleNameStr). roleNameStr) r \<in> K"
  by (fastforce simp: getUsergroupRepogroupRolesQuery_def)

lemma getAssignedRoles_no_owner:
  assumes "getAssignedRoles userId repoId usergroupRels repogroupRels tx = Inr rs"
  shows "(\<forall>r \<in> set (getUserRepogroupRolesQuery tx userId (repogroupIds repogroupRels)).
            snd r \<noteq> ''owner'') \<and>
         (\<forall>r \<in> set (getUsergroupRepogroupRolesQuery tx (usergroupIds usergroupRels)
                       (repogroupIds repogroupRels)).
            (\<lambda>(_, _, roleNameStr). roleNameStr) r \<noteq> ''owner'')"
  using assms
  by (auto simp: getAssignedRoles_def split: if_splits sum.splits dest!: decode_rows_no_owner)

lemma getAssignedRoles_Inl_known:
  assumes nf: "\<forall>q. \<not> fails tx q"
    and k1: "snd ` set (repo_roles_enum tx) \<subseteq> {''owner'', ''reader'', ''writer''}"
    and k2: "snd ` set (repogroup_roles_enum tx) \<subseteq> {''owner'', ''reader'', ''writer''}"
    and e: "getAssignedRoles userId repoId usergroupRels repogroupRels tx = Inl e"
  shows "e = Wrap ''error when mapping db role to enum'' ErrOwnerOnRepogroup"
  using e nf
  by (auto simp: getAssignedRoles_def split: if_splits sum.splits
      dest: decode_rows_known [OF getUserRepoRolesQuery_labels [OF k1]]
        decode_rows_known [OF getUsergroupRepoRolesQuery_labels [OF k1]]
        decode_rows_known [OF getUserRepogroupRolesQuery_labels [OF k2]]
        decode_rows_known [OF getUsergroupRepogroupRolesQuery_labels [OF k2]])

section \<open>The gathered assigned roles are relevant\<close>

text \<open>
  Every role that \<^verbatim>\<open>getAssignedRoles\<close> returns has a decoded role, is assigned to the
  user or to a usergroup of the closure, and is assigned on the repo or on one of the
  repogroups of the repo.
\<close>

lemma repoRoleStrToEnum_known: "repoRoleStrToEnum s b = Inr role \<Longrightarrow> role \<noteq> UnknownRole"
  by (auto simp: repoRoleStrToEnum_def split: if_splits)

lemma decode_rows_invariant:
  assumes "decode_rows b label mk rows acc = Inr rs"
    and "\<forall>a \<in> set acc. P a"
    and "\<forall>row \<in> set rows. \<forall>role. role \<noteq> UnknownRole \<longrightarrow> P (mk row role)"
  shows "\<forall>a \<in> set rs. P a"
  using assms
proof (induction rows arbitrary: acc)
  case Nil
  then show ?case by simp
next
  case (Cons row rows)
  from Cons.prems(1) obtain role where
    role: "repoRoleStrToEnum (label row) b = Inr role" and
    rest: "decode_rows b label mk rows (acc @ [mk row role]) = Inr rs"
    by (auto split: sum.splits)
  from repoRoleStrToEnum_known [OF role] Cons.prems(3) have "P (mk row role)" by simp
  with Cons.prems(2) have "\<forall>a \<in> set (acc @ [mk row role]). P a" by simp
  from Cons.IH [OF rest this] Cons.prems(3) show ?case by simp
qed

lemma getAssignedRoles_relevant:
  assumes "getAssignedRoles userId repoId usergroupRels repogroupRels tx = Inr rs"
  shows "\<forall>a \<in> set rs.
     relevant_role userId repoId (usergroupIds usergroupRels) (repogroupIds repogroupRels) a"
proof -
  let ?P = "relevant_role userId repoId (usergroupIds usergroupRels) (repogroupIds repogroupRels)"
  from assms obtain rs1 rs2 rs3 where
    d1: "decode_rows False (\<lambda>repoRoleStr. repoRoleStr)
           (\<lambda>_ repoRole. \<lparr>UserOrGroup = UserUGR, UserOrGroupID = userId,
              RepoOrGroup = RepoUGR, RepoOrGroupID = repoId, RepoRole = repoRole\<rparr>)
           (getUserRepoRolesQuery tx repoId userId) [] = Inr rs1" and
    d2: "decode_rows False snd
           (\<lambda>(usergroupId, _) repoRole. \<lparr>UserOrGroup = UsergroupUGR,
              UserOrGroupID = usergroupId,
              RepoOrGroup = RepoUGR, RepoOrGroupID = repoId, RepoRole = repoRole\<rparr>)
           (getUsergroupRepoRolesQuery tx repoId (usergroupIds usergroupRels)) rs1 = Inr rs2" and
    d3: "decode_rows True snd
           (\<lambda>(repogroupId, _) repoRole. \<lparr>UserOrGroup = UserUGR, UserOrGroupID = userId,
              RepoOrGroup = RepogroupUGR, RepoOrGroupID = repogroupId,
              RepoRole = repoRole\<rparr>)
           (getUserRepogroupRolesQuery tx userId (repogroupIds repogroupRels)) rs2 = Inr rs3" and
    d4: "decode_rows True (\<lambda>(_, _, roleNameStr). roleNameStr)
           (\<lambda>(repogroupId, usergroupId, _) repoRole. \<lparr>UserOrGroup = UsergroupUGR,
              UserOrGroupID = usergroupId,
              RepoOrGroup = RepogroupUGR, RepoOrGroupID = repogroupId,
              RepoRole = repoRole\<rparr>)
           (getUsergroupRepogroupRolesQuery tx (usergroupIds usergroupRels)
              (repogroupIds repogroupRels)) rs3 = Inr rs"
    by (auto simp: getAssignedRoles_def split: if_splits sum.splits)
  have p1: "\<forall>a \<in> set rs1. ?P a"
    by (rule decode_rows_invariant [OF d1]) (auto simp: relevant_role_def)
  have p2: "\<forall>a \<in> set rs2. ?P a"
    by (rule decode_rows_invariant [OF d2 p1])
       (auto simp: relevant_role_def getUsergroupRepoRolesQuery_def)
  have p3: "\<forall>a \<in> set rs3. ?P a"
    by (rule decode_rows_invariant [OF d3 p2])
       (auto simp: relevant_role_def getUserRepogroupRolesQuery_def)
  show ?thesis
    by (rule decode_rows_invariant [OF d4 p3])
       (auto simp: relevant_role_def getUsergroupRepogroupRolesQuery_def)
qed

text \<open>
  In the facts of the authorizer, the user of the request has authority over every
  usergroup of the closure, and the repo over each of its repogroups.
\<close>

lemma user_authority_closure:
  assumes r: "getUsergroupsRecursive userId tx = Inr rels"
    and u: "namespaceUser userId \<in> set (user_facts w)"
    and f: "usergroup_facts w =
        map (\<lambda>u. (namespaceUG (UsergroupId u), namespaceUser (UserId u))) (UserInGroups rels) @
        map (\<lambda>g. (namespaceUG (ParentUsergroupId g), namespaceUG (ChildUsergroupId g)))
          (UserGroupInGroups rels)"
    and g: "g \<in> set (usergroupIds rels)"
  shows "user_authority w (namespaceUser userId) (namespaceUG g)"
proof -
  from g closure_groups [OF r] obtain d where d: "d \<in> direct_groups tx userId"
    and dg: "(d, g) \<in> (set (UserGroup_membership_usergroups tx))\<^sup>*"
    by (auto simp: reachable_groups_def)
  from dg show ?thesis
  proof (induction rule: rtrancl_induct)
    case base
    from d have "(d, None) \<in> set (ugs tx userId)" by (simp add: ugs_row_iff)
    then have "\<lparr>UserId = userId, UsergroupId = d\<rparr> \<in> set (UserInGroups rels)"
      using r by (force simp: getUsergroupsRecursive_Inr)
    then have "(namespaceUG d, namespaceUser userId) \<in> set (usergroup_facts w)"
      unfolding f by force
    moreover have "starts_with (namespaceUser userId) ''userid:''"
      by (simp add: namespaceUser_def userNS_def namespaceAuthz_def starts_with_def)
    ultimately show ?case
      by (rule user_authority.intros(2))
  next
    case (step y z)
    from step.hyps(1) d have "y \<in> reachable_groups tx userId"
      by (auto simp: reachable_groups_def)
    with step.hyps(2) have "(y, Some z) \<in> set (ugs tx userId)" by (simp add: ugs_row_iff)
    then have "\<lparr>ParentUsergroupId = y, ChildUsergroupId = z\<rparr> \<in> set (UserGroupInGroups rels)"
      using r by (force simp: getUsergroupsRecursive_Inr)
    then have "(namespaceUG y, namespaceUG z) \<in> set (usergroup_facts w)"
      unfolding f by force
    moreover have "starts_with (namespaceUG z) ''usergroupid:''"
      by (simp add: namespaceUG_def usergroupNS_def namespaceAuthz_def starts_with_def)
    ultimately show ?case
      using step.IH by (rule user_authority.intros(3))
  qed
qed

lemma repo_authority_repogroups:
  assumes "getRepogroupRels repoId tx = Inr repogroupRels"
    and "(action, namespaceRepo repoId) \<in> set (operation_facts w)"
    and "repogroup_facts w =
        map (\<lambda>r. (namespaceRG (RepogroupId r), namespaceRepo (RepoId r))) repogroupRels"
  shows "repo_authority w (namespaceRepo repoId) (namespaceRepo repoId)"
    and "rg \<in> set (repogroupIds repogroupRels) \<Longrightarrow>
         repo_authority w (namespaceRepo repoId) (namespaceRG rg)"
proof -
  from assms(2) have "repo w (namespaceRepo repoId)" by (rule repo.intros)
  then show "repo_authority w (namespaceRepo repoId) (namespaceRepo repoId)"
    by (rule repo_authority.intros(1))
next
  assume "rg \<in> set (repogroupIds repogroupRels)"
  then obtain r where r: "r \<in> set repogroupRels" "RepogroupId r = rg"
    by (auto simp: repogroupIds_def set_map_store_fold)
  with assms(1) have "RepoId r = repoId"
    by (auto simp: getRepogroupRels_def split: if_splits)
  with r have "(namespaceRG rg, namespaceRepo repoId) \<in> set (repogroup_facts w)"
    unfolding assms(3) by force
  then show "repo_authority w (namespaceRepo repoId) (namespaceRG rg)"
    by (rule repo_authority.intros(2))
qed

text \<open>
  So the request details gathered for a user, given to \<^verbatim>\<open>CheckAuthz\<close> with a token of
  that user, meet the condition under which claim C1 is stated: the loop over the
  assigned roles returns, and each role fact is one over whose principal the user has
  authority and over whose resource the repo has authority.
\<close>

lemma GatherRequestDetails_relevant:
  assumes g: "snd (GatherRequestDetails userId reponame tx) = Inr rd"
    and u: "namespaceUser userId \<in> set (authority_users token)"
  shows "\<exists>rs. assignedRoles_loop (AssignedRoles rd) [] = Return rs \<and>
     (\<forall>(userOrGroup, repoOrGroup, role) \<in> set rs.
        (\<exists>user \<in> set (authority_users token).
           user_authority (authorizer_facts token rd actionStr t rs) user userOrGroup) \<and>
        repo_authority (authorizer_facts token rd actionStr t rs)
          (namespaceRepo (ReqRepoId rd)) repoOrGroup)"
proof -
  from g obtain username rels repoId rgs ars where
    rels: "getUsergroupsRecursive userId tx = Inr rels" and
    rgs: "getRepogroupRels repoId tx = Inr rgs" and
    ars: "getAssignedRoles userId repoId rels rgs tx = Inr ars" and
    rd: "rd = \<lparr>ReqUserId = userId, Username = username, UsergroupRelationships = rels,
           ReqRepoId = repoId, RepoName = reponame, RepogroupRels = rgs,
           AssignedRoles = ars\<rparr>"
    by (auto simp: GatherRequestDetails_def split: if_splits sum.splits)
  have rel: "\<forall>a \<in> set ars. relevant_role userId repoId (usergroupIds rels) (repogroupIds rgs) a"
    by (rule getAssignedRoles_relevant [OF ars])
  have "\<not> (\<exists>msg. assignedRoles_loop ars [] = Exit msg)"
    unfolding assignedRoles_loop_Exit using rel by (auto simp: relevant_role_def)
  then obtain rs where loop: "assignedRoles_loop ars [] = Return rs"
    by (cases "assignedRoles_loop ars []") auto
  let ?w = "authorizer_facts token rd actionStr t rs"
  have uf: "namespaceUser userId \<in> set (user_facts ?w)"
    using u by (simp add: authorizer_facts_def)
  have ugf: "usergroup_facts ?w =
        map (\<lambda>u. (namespaceUG (UsergroupId u), namespaceUser (UserId u))) (UserInGroups rels) @
        map (\<lambda>g. (namespaceUG (ParentUsergroupId g), namespaceUG (ChildUsergroupId g)))
          (UserGroupInGroups rels)"
    by (simp add: authorizer_facts_def rd)
  have opf: "(namespaceAction actionStr, namespaceRepo repoId) \<in> set (operation_facts ?w)"
    by (simp add: authorizer_facts_def rd)
  have rgf: "repogroup_facts ?w =
        map (\<lambda>r. (namespaceRG (RepogroupId r), namespaceRepo (RepoId r))) rgs"
    by (simp add: authorizer_facts_def rd)
  have "(\<exists>user \<in> set (authority_users token). user_authority ?w user p) \<and>
        repo_authority ?w (namespaceRepo (ReqRepoId rd)) q"
    if m: "(p, q, role) \<in> set rs" for p q role
  proof -
    from loop have "map assignedRoleMapping ars = map Return rs"
      by (simp add: assignedRoles_loop_Return)
    with m have "Return (p, q, role) \<in> set (map assignedRoleMapping ars)" by simp
    then obtain a where a: "a \<in> set ars" and am: "assignedRoleMapping a = Return (p, q, role)"
      by auto
    from rel a have ra: "relevant_role userId repoId (usergroupIds rels) (repogroupIds rgs) a"
      by simp
    from am have p: "userOrGroup_switch a = Return p" and q: "repoOrGroup_switch a = Return q"
      by (simp_all add: assignedRoleMapping_Return)
    have "user_authority ?w (namespaceUser userId) p"
    proof (cases "UserOrGroup a")
      case UndefUGR
      with ra show ?thesis by (simp add: relevant_role_def)
    next
      case UserUGR
      with ra p have "p = namespaceUser userId"
        by (simp add: relevant_role_def userOrGroup_switch_def)
      with uf show ?thesis by (simp add: user_authority.intros(1))
    next
      case UsergroupUGR
      with ra p have "p = namespaceUG (UserOrGroupID a)"
        and "UserOrGroupID a \<in> set (usergroupIds rels)"
        by (simp_all add: relevant_role_def userOrGroup_switch_def)
      with user_authority_closure [OF rels uf ugf] show ?thesis by simp
    qed
    moreover have "repo_authority ?w (namespaceRepo repoId) q"
    proof (cases "RepoOrGroup a")
      case UndefRGR
      with ra show ?thesis by (simp add: relevant_role_def)
    next
      case RepoUGR
      with ra q have "q = namespaceRepo repoId"
        by (simp add: relevant_role_def repoOrGroup_switch_def)
      with repo_authority_repogroups(1) [OF rgs opf rgf] show ?thesis by simp
    next
      case RepogroupUGR
      with ra q have "q = namespaceRG (RepoOrGroupID a)"
        and "RepoOrGroupID a \<in> set (repogroupIds rgs)"
        by (simp_all add: relevant_role_def repoOrGroup_switch_def)
      with repo_authority_repogroups(2) [OF rgs opf rgf] show ?thesis by simp
    qed
    ultimately show ?thesis using u by (auto simp: rd)
  qed
  with loop show ?thesis by (auto simp: rd)
qed

section \<open>The request of the example\<close>

lemma GatherRequestDetails_main:
  "GatherRequestDetails 4 ''Charlie'' init_db =
     ([CallBeginTx, CallCheckUserInDb, CallGetUsergroupsRecursive, CallCheckRepoInDb,
       CallGetRepogroupRels, CallGetAssignedRoles, CallCommit],
      Inr main_request)"
proof -
  have rows: "ugs init_db 4 = [(1, None), (1, Some 2), (2, Some 3)]"
    by (simp add: ugs_def init_db_def ugs_initial_def ugs_recursive_def)
  have r: "getUsergroupsRecursive 4 init_db =
     Inr \<lparr>UserInGroups = [\<lparr>UserId = 4, UsergroupId = 1\<rparr>],
          UserGroupInGroups =
            [\<lparr>ParentUsergroupId = 1, ChildUsergroupId = 2\<rparr>,
             \<lparr>ParentUsergroupId = 2, ChildUsergroupId = 3\<rparr>]\<rparr>"
    by (simp add: getUsergroupsRecursive_def rows) (simp add: init_db_def)
  have u: "checkUserInDb 4 init_db = Inr ''Liam''"
    by (simp add: checkUserInDb_def init_db_def)
  have p: "checkRepoInDb ''Charlie'' init_db = Inr 3"
    by (simp add: checkRepoInDb_def init_db_def)
  have g: "getRepogroupRels 3 init_db = Inr [\<lparr>RepogroupId = 1, RepoId = 3\<rparr>]"
    by (simp add: getRepogroupRels_def init_db_def)
  have a: "getAssignedRoles 4 3
      \<lparr>UserInGroups = [\<lparr>UserId = 4, UsergroupId = 1\<rparr>],
          UserGroupInGroups =
            [\<lparr>ParentUsergroupId = 1, ChildUsergroupId = 2\<rparr>,
             \<lparr>ParentUsergroupId = 2, ChildUsergroupId = 3\<rparr>]\<rparr>
      [\<lparr>RepogroupId = 1, RepoId = 3\<rparr>] init_db =
      Inr [\<lparr>UserOrGroup = UsergroupUGR, UserOrGroupID = 1, RepoOrGroup = RepogroupUGR,
          RepoOrGroupID = 1, RepoRole = WriterRole\<rparr>]"
    by (simp add: getAssignedRoles_def init_db_def getUserRepoRolesQuery_def
        getUsergroupRepoRolesQuery_def getUserRepogroupRolesQuery_def
        getUsergroupRepogroupRolesQuery_def usergroupIds_def repogroupIds_def map_store_def
        repoRoleStrToEnum_def)
  show ?thesis
    by (simp add: GatherRequestDetails_def u r p g a main_request_def) (simp add: init_db_def)
qed

section \<open>Claims about the closure\<close>

text \<open>
  Claim C4, as amended. Whenever the driver does not fail on the recursive statement,
  \<^verbatim>\<open>getUsergroupsRecursive\<close> returns, for every user and every nesting, cyclic or not
  (the function is total): the usergroups it returns are exactly those reachable from
  the direct memberships of the user along the nesting, a finite set that also holds
  every parent of a returned nesting row, and no row of the result occurs twice. What
  is kept apart are rows, not usergroups: the claim that a usergroup is never expanded
  again fails, see the counterexample.
\<close>

theorem getUsergroupsRecursive_closure:
  "\<not> fails tx QUsergroups \<Longrightarrow>
   \<exists>rels. getUsergroupsRecursive userId tx = Inr rels \<and>
     set (usergroupIds rels) =
       (set (UserGroup_membership_usergroups tx))\<^sup>* ``
         {g. (g, userId) \<in> set (UserGroup_membership_users tx)} \<and>
     finite (set (usergroupIds rels)) \<and>
     ParentUsergroupId ` set (UserGroupInGroups rels) \<subseteq> set (usergroupIds rels) \<and>
     distinct (ugs tx userId) \<and>
     length (UserInGroups rels) + length (UserGroupInGroups rels) = length (ugs tx userId)"
proof -
  assume nf: "\<not> fails tx QUsergroups"
  define rels where "rels = scan_usergroups userId (ugs tx userId) [] []"
  have r: "getUsergroupsRecursive userId tx = Inr rels"
    using nf by (simp add: getUsergroupsRecursive_def rels_def)
  have len: "length (UserInGroups rels) + length (UserGroupInGroups rels) = length (ugs tx userId)"
    unfolding rels_def by (simp add: scan_usergroups_length)
  from r closure_groups [OF r] closure_parents [OF r] distinct_ugs len show ?thesis
    by (auto simp: reachable_groups_def direct_groups_def)
qed

text \<open>
  The witness is the cycle of the specification: usergroup 1 is the parent of 2 and 2
  the parent of 1. The query returns three rows for user 4, and the closure is the set
  of the two usergroups of the cycle.
\<close>

theorem getUsergroupsRecursive_closure_witness:
  "\<not> fails cyclic_db QUsergroups \<and>
   getUsergroupsRecursive 4 cyclic_db =
     Inr \<lparr>UserInGroups = [\<lparr>UserId = 4, UsergroupId = 1\<rparr>],
          UserGroupInGroups =
            [\<lparr>ParentUsergroupId = 1, ChildUsergroupId = 2\<rparr>,
             \<lparr>ParentUsergroupId = 2, ChildUsergroupId = 1\<rparr>]\<rparr> \<and>
   (set (UserGroup_membership_usergroups cyclic_db))\<^sup>* ``
      {g. (g, 4) \<in> set (UserGroup_membership_users cyclic_db)} = {1, 2}"
proof -
  have nf: "\<not> fails cyclic_db QUsergroups"
    by (simp add: cyclic_db_def init_db_def)
  have rows: "ugs cyclic_db 4 = [(1, None), (1, Some 2), (2, Some 1)]"
    by (simp add: ugs_def cyclic_db_def init_db_def ugs_initial_def ugs_recursive_def)
  have r: "getUsergroupsRecursive 4 cyclic_db =
     Inr \<lparr>UserInGroups = [\<lparr>UserId = 4, UsergroupId = 1\<rparr>],
          UserGroupInGroups =
            [\<lparr>ParentUsergroupId = 1, ChildUsergroupId = 2\<rparr>,
             \<lparr>ParentUsergroupId = 2, ChildUsergroupId = 1\<rparr>]\<rparr>"
    using nf by (simp add: getUsergroupsRecursive_def rows)
  have ids: "set (usergroupIds \<lparr>UserInGroups = [\<lparr>UserId = 4, UsergroupId = 1\<rparr>],
          UserGroupInGroups =
            [\<lparr>ParentUsergroupId = 1, ChildUsergroupId = 2\<rparr>,
             \<lparr>ParentUsergroupId = 2, ChildUsergroupId = 1\<rparr>]\<rparr>) = {1, 2}"
    by (simp add: usergroupIds_def map_store_def)
  from getUsergroupsRecursive_closure [OF nf, of 4] r ids nf show ?thesis
    by auto
qed

text \<open>
  Counterexample to claim C4 as stated. On the example data, user 4 is a direct member
  of usergroup 1, which is the parent of 2, which is the parent of 3. The recursive
  select is run on the rows (1, NULL), (1, 2) and (2, 3): the nesting rows of usergroup
  1 are fetched for the first and again for the second row, those of usergroup 2 for
  the second and again for the third.
\<close>

theorem ugs_expansions_counterexample:
  "ugs_expansions init_db 4 = [1, 1, 2, 2, 3] \<and> \<not> distinct (ugs_expansions init_db 4)"
  by (simp add: ugs_expansions_def ugs_expanded_def ugs_def init_db_def ugs_initial_def
      ugs_recursive_def)

text \<open>
  Claim C5. Adding one nesting edge to the store can only grow the closure: if
  \<^verbatim>\<open>getUsergroupsRecursive\<close> returns on the store, it returns on the store with the edge
  added, and every usergroup of the first closure is in the second.
\<close>

theorem closure_monotone:
  "getUsergroupsRecursive userId tx = Inr rels \<Longrightarrow>
   \<exists>rels'. getUsergroupsRecursive userId
       (tx\<lparr>UserGroup_membership_usergroups := UserGroup_membership_usergroups tx @ [E]\<rparr>) =
       Inr rels' \<and>
     set (usergroupIds rels) \<subseteq> set (usergroupIds rels')"
proof -
  let ?tx' = "tx\<lparr>UserGroup_membership_usergroups := UserGroup_membership_usergroups tx @ [E]\<rparr>"
  assume r: "getUsergroupsRecursive userId tx = Inr rels"
  then have "\<not> fails ?tx' QUsergroups"
    by (simp add: getUsergroupsRecursive_def split: if_splits)
  then obtain rels' where r': "getUsergroupsRecursive userId ?tx' = Inr rels'"
    by (simp add: getUsergroupsRecursive_def)
  have "reachable_groups tx userId \<subseteq> reachable_groups ?tx' userId"
    by (rule reachable_groups_mono) auto
  with closure_groups [OF r] closure_groups [OF r'] r' show ?thesis
    by auto
qed

text \<open>
  The witness: on the example data user 5 is a member of usergroup 3 only, which has
  no children; with the edge from 3 to 1 added, the closure is all three usergroups.
\<close>

theorem closure_monotone_witness:
  "getUsergroupsRecursive 5 init_db =
     Inr \<lparr>UserInGroups = [\<lparr>UserId = 5, UsergroupId = 3\<rparr>], UserGroupInGroups = []\<rparr> \<and>
   set (usergroupIds \<lparr>UserInGroups = [\<lparr>UserId = 5, UsergroupId = 3\<rparr>],
                      UserGroupInGroups = []\<rparr>) = {3} \<and>
   (\<exists>rels'. getUsergroupsRecursive 5
       (init_db\<lparr>UserGroup_membership_usergroups :=
          UserGroup_membership_usergroups init_db @ [(3, 1)]\<rparr>) = Inr rels' \<and>
      3 \<in> set (usergroupIds rels'))"
proof -
  have rows: "ugs init_db 5 = [(3, None)]"
    by (simp add: ugs_def init_db_def ugs_initial_def ugs_recursive_def)
  have r: "getUsergroupsRecursive 5 init_db =
     Inr \<lparr>UserInGroups = [\<lparr>UserId = 5, UsergroupId = 3\<rparr>], UserGroupInGroups = []\<rparr>"
    by (simp add: getUsergroupsRecursive_def rows) (simp add: init_db_def)
  have ids: "set (usergroupIds \<lparr>UserInGroups = [\<lparr>UserId = 5, UsergroupId = 3\<rparr>],
                      UserGroupInGroups = []\<rparr>) = {3}"
    by (simp add: usergroupIds_def map_store_def)
  from closure_monotone [OF r, of "(3, 1)"] r ids show ?thesis
    by auto
qed

text \<open>
  Claim C8. The ids bound to the \<^verbatim>\<open>IN\<close> lists of the role statements are the keys of
  the maps \<^verbatim>\<open>usergroupIds\<close> and \<^verbatim>\<open>repogroupIds\<close>: whatever the relationships and the
  repogroup memberships are, no id occurs twice in either list, and the lists hold
  exactly the usergroups of the memberships and the children of the nested usergroups,
  and the repogroups of the repogroup memberships.
\<close>

theorem bind_ids_distinct:
  "distinct (usergroupIds usergroupRels) \<and>
   set (usergroupIds usergroupRels) =
     UsergroupId ` set (UserInGroups usergroupRels) \<union>
     ChildUsergroupId ` set (UserGroupInGroups usergroupRels) \<and>
   distinct (repogroupIds repogroupRels) \<and>
   set (repogroupIds repogroupRels) = RepogroupId ` set repogroupRels"
  by (simp add: usergroupIds_def repogroupIds_def distinct_map_store_fold set_map_store_fold
      Un_commute)

text \<open>
  An instance: usergroup 4 is reached from usergroup 1 through 2 and through 3. The
  query returns it as a child twice, and it is bound once.
\<close>

theorem bind_ids_distinct_witness:
  "ugs diamond_db 4 = [(1, None), (1, Some 2), (1, Some 3), (2, Some 4), (3, Some 4)] \<and>
   map ChildUsergroupId
     (UserGroupInGroups (scan_usergroups 4 (ugs diamond_db 4) [] [])) = [2, 3, 4, 4] \<and>
   usergroupIds (scan_usergroups 4 (ugs diamond_db 4) [] []) = [1, 2, 3, 4] \<and>
   distinct (usergroupIds (scan_usergroups 4 (ugs diamond_db 4) [] []))"
proof -
  have rows: "ugs diamond_db 4 = [(1, None), (1, Some 2), (1, Some 3), (2, Some 4), (3, Some 4)]"
    by (simp add: ugs_def diamond_db_def init_db_def ugs_initial_def ugs_recursive_def)
  have "usergroupIds (scan_usergroups 4 (ugs diamond_db 4) [] []) = [1, 2, 3, 4]"
    by (simp add: rows usergroupIds_def map_store_def)
  with rows bind_ids_distinct [of "scan_usergroups 4 (ugs diamond_db 4) [] []" "[]"]
  show ?thesis by simp
qed

text \<open>
  Claim C10. What \<^verbatim>\<open>getUsergroupsRecursive\<close> returns is the result of the statement
  split by whether the child column is \<^verbatim>\<open>NULL\<close>: the memberships are the rows without
  a child, each with the id of the queried user, the nested usergroups are the rows
  with a child, each pairing the usergroup with that child, and every row is in one
  of the two lists only. The memberships are rows of the membership table of that
  user, the nested usergroups rows of the nesting table.
\<close>

theorem getUsergroupsRecursive_partition:
  "getUsergroupsRecursive userId tx = Inr rels \<Longrightarrow>
   UserInGroups rels = [\<lparr>UserId = userId, UsergroupId = g\<rparr>. (g, None) \<leftarrow> ugs tx userId] \<and>
   UserGroupInGroups rels =
     [\<lparr>ParentUsergroupId = g, ChildUsergroupId = c\<rparr>. (g, Some c) \<leftarrow> ugs tx userId] \<and>
   list_all (\<lambda>u. UserId u = userId \<and>
                (UsergroupId u, userId) \<in> set (UserGroup_membership_users tx))
     (UserInGroups rels) \<and>
   list_all (\<lambda>e. (ParentUsergroupId e, ChildUsergroupId e) \<in>
                   set (UserGroup_membership_usergroups tx))
     (UserGroupInGroups rels) \<and>
   length (UserInGroups rels) + length (UserGroupInGroups rels) = length (ugs tx userId)"
proof -
  assume r: "getUsergroupsRecursive userId tx = Inr rels"
  then have rels: "rels = scan_usergroups userId (ugs tx userId) [] []"
    by (simp add: getUsergroupsRecursive_def split: if_splits)
  have len: "length (UserInGroups rels) + length (UserGroupInGroups rels) = length (ugs tx userId)"
    unfolding rels by (simp add: scan_usergroups_length)
  have u: "list_all (\<lambda>u. UserId u = userId \<and>
                (UsergroupId u, userId) \<in> set (UserGroup_membership_users tx))
     (UserInGroups rels)"
    using r by (auto simp: getUsergroupsRecursive_Inr list_all_iff ugs_row_iff direct_groups_def
        split: option.splits)
  have e: "list_all (\<lambda>e. (ParentUsergroupId e, ChildUsergroupId e) \<in>
                   set (UserGroup_membership_usergroups tx))
     (UserGroupInGroups rels)"
    using r by (auto simp: getUsergroupsRecursive_Inr list_all_iff ugs_row_iff
        split: option.splits)
  from r len u e show ?thesis
    by (simp add: getUsergroupsRecursive_Inr)
qed

text \<open>The witness: the three rows returned for user 4 on the example data.\<close>

theorem getUsergroupsRecursive_partition_witness:
  "getUsergroupsRecursive 4 init_db =
     Inr \<lparr>UserInGroups = [\<lparr>UserId = 4, UsergroupId = 1\<rparr>],
          UserGroupInGroups =
            [\<lparr>ParentUsergroupId = 1, ChildUsergroupId = 2\<rparr>,
             \<lparr>ParentUsergroupId = 2, ChildUsergroupId = 3\<rparr>]\<rparr> \<and>
   length (ugs init_db 4) = 3"
proof -
  have rows: "ugs init_db 4 = [(1, None), (1, Some 2), (2, Some 3)]"
    by (simp add: ugs_def init_db_def ugs_initial_def ugs_recursive_def)
  have r: "getUsergroupsRecursive 4 init_db =
     Inr \<lparr>UserInGroups = [\<lparr>UserId = 4, UsergroupId = 1\<rparr>],
          UserGroupInGroups =
            [\<lparr>ParentUsergroupId = 1, ChildUsergroupId = 2\<rparr>,
             \<lparr>ParentUsergroupId = 2, ChildUsergroupId = 3\<rparr>]\<rparr>"
    by (simp add: getUsergroupsRecursive_def rows) (simp add: init_db_def)
  from getUsergroupsRecursive_partition [OF r] r show ?thesis
    by simp
qed

section \<open>Claims about the decision\<close>

text \<open>
  Claim C1, as amended. Take a request for one of the three declared operations whose
  assigned roles all have recognised tags and are relevant: in the facts of the
  authorizer, a user of the token has authority over the principal of each role fact,
  and the requested repo over its resource (the requests that \<^verbatim>\<open>GatherRequestDetails\<close> builds for the user of the token are of this
  kind, by \<open>GatherRequestDetails_relevant\<close>). For such a request \<^verbatim>\<open>CheckAuthz\<close>
  returns true exactly when the token verifies under the public root and passes its
  checks, the evaluator stays within its run limits, and some assigned role has a role
  whose entry in the table of allowed actions contains the requested action. A request
  without assigned roles is never answered with true, whatever the action and the
  token are.
\<close>

theorem CheckAuthz_true_iff:
  "(ActionStr op = Return actionStr \<and>
    assignedRoles_loop (AssignedRoles rd) [] = Return rs \<and>
    (\<forall>(userOrGroup, repoOrGroup, role) \<in> set rs.
        (\<exists>user \<in> set (authority_users token).
           user_authority (authorizer_facts token rd actionStr (now rt) rs) user userOrGroup) \<and>
        repo_authority (authorizer_facts token rd actionStr (now rt) rs)
          (namespaceRepo (ReqRepoId rd)) repoOrGroup) \<longrightarrow>
    (CheckAuthz rt token publicRoot rd op = Return (True, None) \<longleftrightarrow>
       root token = publicRoot \<and> \<not> run_limit_reached rt \<and>
       list_all (\<lambda>check. check (authorizer_facts token rd actionStr (now rt) rs)) (checks token) \<and>
       (\<exists>a \<in> set (AssignedRoles rd). \<exists>(roleName, allowed) \<in> set RepoRoleActions.
          roleName_switch a = Return (namespaceRole roleName) \<and> actionStr \<in> set allowed))) \<and>
   (AssignedRoles rd = [] \<longrightarrow> CheckAuthz rt token publicRoot rd op \<noteq> Return (True, None))"
proof (intro conjI impI)
  assume h: "ActionStr op = Return actionStr \<and>
    assignedRoles_loop (AssignedRoles rd) [] = Return rs \<and>
    (\<forall>(userOrGroup, repoOrGroup, role) \<in> set rs.
        (\<exists>user \<in> set (authority_users token).
           user_authority (authorizer_facts token rd actionStr (now rt) rs) user userOrGroup) \<and>
        repo_authority (authorizer_facts token rd actionStr (now rt) rs)
          (namespaceRepo (ReqRepoId rd)) repoOrGroup)"
  then have loop: "assignedRoles_loop (AssignedRoles rd) [] = Return rs"
    and switch: "ActionStr op = Return actionStr" by simp_all
  have users: "authority_users token \<noteq> []" if "x \<in> set rs" for x
  proof -
    obtain u r role where x: "x = (u, r, role)" by (cases x) auto
    from h that have "\<exists>user \<in> set (authority_users token).
        user_authority (authorizer_facts token rd actionStr (now rt) rs) user u"
      unfolding x by blast
    then show ?thesis by auto
  qed
  have "(\<exists>(u, r, role) \<in> set rs. \<exists>(roleName, allowed) \<in> set RepoRoleActions.
             namespaceRole roleName = role \<and> actionStr \<in> set allowed) \<longleftrightarrow>
          (\<exists>a \<in> set (AssignedRoles rd). \<exists>role. roleName_switch a = Return role \<and>
             (\<exists>(roleName, allowed) \<in> set RepoRoleActions.
                namespaceRole roleName = role \<and> actionStr \<in> set allowed))"
    by (rule assignedRoles_loop_roles [OF loop])
  also have "\<dots> \<longleftrightarrow> (\<exists>a \<in> set (AssignedRoles rd). \<exists>(roleName, allowed) \<in> set RepoRoleActions.
         roleName_switch a = Return (namespaceRole roleName) \<and> actionStr \<in> set allowed)"
    by auto
  finally have roles: "(\<exists>(u, r, role) \<in> set rs. \<exists>(roleName, allowed) \<in> set RepoRoleActions.
             namespaceRole roleName = role \<and> actionStr \<in> set allowed) \<longleftrightarrow>
        (\<exists>a \<in> set (AssignedRoles rd). \<exists>(roleName, allowed) \<in> set RepoRoleActions.
         roleName_switch a = Return (namespaceRole roleName) \<and> actionStr \<in> set allowed)" .
  have "allow (authorizer_facts token rd actionStr (now rt) rs) \<longleftrightarrow>
        (\<exists>(u, r, role) \<in> set rs. \<exists>(roleName, allowed) \<in> set RepoRoleActions.
             namespaceRole roleName = role \<and> actionStr \<in> set allowed)"
    unfolding allow_authorizer_facts using users by blast
  with roles loop show "CheckAuthz rt token publicRoot rd op = Return (True, None) \<longleftrightarrow>
       root token = publicRoot \<and> \<not> run_limit_reached rt \<and>
       list_all (\<lambda>check. check (authorizer_facts token rd actionStr (now rt) rs)) (checks token) \<and>
       (\<exists>a \<in> set (AssignedRoles rd). \<exists>(roleName, allowed) \<in> set RepoRoleActions.
          roleName_switch a = Return (namespaceRole roleName) \<and> actionStr \<in> set allowed)"
    by (auto simp: CheckAuthz_True [OF switch])
next
  assume none: "AssignedRoles rd = []"
  show "CheckAuthz rt token publicRoot rd op \<noteq> Return (True, None)"
  proof (cases "ActionStr op")
    case (Exit msg)
    then show ?thesis by (simp add: CheckAuthz_def)
  next
    case (Return s)
    from none show ?thesis
      by (simp add: CheckAuthz_True [OF Return] allow_authorizer_facts)
  qed
qed

text \<open>
  The witness: the request of \<^verbatim>\<open>main.go\<close> at a time before the bound of the token.
  User 4 reads Charlie as a member of usergroup 1, which is a writer of repogroup 1,
  to which Charlie belongs. Without the assigned role the same request is not answered
  with true.
\<close>

theorem CheckAuthz_true_iff_witness:
  "CheckAuthz \<lparr>now = 1793000000, run_limit_reached = False\<rparr> main_token (PublicRoot main_issuer)
      main_request Read = Return (True, None) \<and>
   CheckAuthz \<lparr>now = 1793000000, run_limit_reached = False\<rparr> main_token (PublicRoot main_issuer)
      (main_request\<lparr>AssignedRoles := []\<rparr>) Read \<noteq> Return (True, None)"
proof -
  let ?rt = "\<lparr>now = 1793000000, run_limit_reached = False\<rparr>"
  let ?rs = "[(''usergroupid:1'', ''repogroupid:1'', ''role:writer'')]"
  let ?w = "authorizer_facts main_token main_request readStr (now ?rt) ?rs"
  have switch: "ActionStr Read = Return readStr"
    by (simp add: ActionStr_def Read_def Membership_def)
  have loop: "assignedRoles_loop (AssignedRoles main_request) [] = Return ?rs"
    by (simp add: main_request_def assignedRoleMapping_def userOrGroup_switch_def
        repoOrGroup_switch_def roleName_switch_def namespaceUG_def namespaceRG_def
        namespaceRole_def namespaceAuthz_def fmt_d_def digits.simps usergroupNS_def
        repogroupNS_def roleNS_def writerRoleStr_def)
  have names: "namespaceUser 4 = ''userid:4''" "namespaceUG 1 = ''usergroupid:1''"
    "namespaceRG 1 = ''repogroupid:1''" "namespaceRepo 3 = ''repo:3''"
    by (simp_all add: namespaceUser_def namespaceUG_def namespaceRG_def namespaceRepo_def
        namespaceAuthz_def fmt_d_def digits.simps userNS_def usergroupNS_def repogroupNS_def
        repoNS_def)
  have ug: "(''usergroupid:1'', ''userid:4'') \<in> set (usergroup_facts ?w)"
    by (simp add: authorizer_facts_def main_request_def names)
  have rg: "(''repogroupid:1'', ''repo:3'') \<in> set (repogroup_facts ?w)"
    by (simp add: authorizer_facts_def main_request_def names)
  have ua: "user_authority ?w ''userid:4'' ''usergroupid:1''"
    by (rule user_authority.intros(2) [OF ug]) (simp add: starts_with_def)
  have ra: "repo_authority ?w (namespaceRepo (ReqRepoId main_request)) ''repogroupid:1''"
    using repo_authority.intros(2) [OF rg] by (simp add: main_request_def names)
  have user: "''userid:4'' \<in> set (authority_users main_token)"
    by (simp add: main_token_def AttenuateBiscuit_def IssueToken_def names)
  have hyp: "ActionStr Read = Return readStr \<and>
    assignedRoles_loop (AssignedRoles main_request) [] = Return ?rs \<and>
    (\<forall>(userOrGroup, repoOrGroup, role) \<in> set ?rs.
        (\<exists>user \<in> set (authority_users main_token). user_authority ?w user userOrGroup) \<and>
        repo_authority ?w (namespaceRepo (ReqRepoId main_request)) repoOrGroup)"
    using switch loop ua ra user by auto
  have verifies: "root main_token = PublicRoot main_issuer"
    by (simp add: main_token_def AttenuateBiscuit_def IssueToken_def)
  have passes: "list_all (\<lambda>check. check ?w) (checks main_token)"
    by (simp add: main_token_def AttenuateBiscuit_def IssueToken_def authorizer_facts_def)
  have permitted: "\<exists>a \<in> set (AssignedRoles main_request).
      \<exists>(roleName, allowed) \<in> set RepoRoleActions.
        roleName_switch a = Return (namespaceRole roleName) \<and> readStr \<in> set allowed"
    by (simp add: main_request_def RepoRoleActions_def roleName_switch_def)
  have "CheckAuthz ?rt main_token (PublicRoot main_issuer) main_request Read =
      Return (True, None)"
    using CheckAuthz_true_iff
      [of Read readStr main_request ?rs main_token ?rt "PublicRoot main_issuer"]
      hyp verifies passes permitted
    by simp
  moreover have "CheckAuthz ?rt main_token (PublicRoot main_issuer)
      (main_request\<lparr>AssignedRoles := []\<rparr>) Read \<noteq> Return (True, None)"
    using CheckAuthz_true_iff
      [of Read _ "main_request\<lparr>AssignedRoles := []\<rparr>" _ main_token ?rt
          "PublicRoot main_issuer"]
    by simp
  ultimately show ?thesis by simp
qed

text \<open>
  Counterexample to claim C1 as stated. The request of \<^verbatim>\<open>main.go\<close> one second after
  the bound of its token: the assigned role is a writer role, which permits reading,
  yet \<^verbatim>\<open>CheckAuthz\<close> does not return true, because the check of the token fails.
\<close>

theorem CheckAuthz_true_iff_counterexample:
  "RepoRole (hd (AssignedRoles main_request)) = WriterRole \<and>
   roleName_switch (hd (AssignedRoles main_request)) = Return (namespaceRole writerRoleStr) \<and>
   (writerRoleStr, [writeStr, readStr]) \<in> set RepoRoleActions \<and>
   ActionStr Read = Return readStr \<and> readStr \<in> set [writeStr, readStr] \<and>
   CheckAuthz \<lparr>now = 4110116411, run_limit_reached = False\<rparr> main_token (PublicRoot main_issuer)
      main_request Read = Return (False, Some (Flat ''error in Authorize'' ErrFailedCheck))"
proof -
  have loop: "assignedRoles_loop (AssignedRoles main_request) [] =
      Return [(''usergroupid:1'', ''repogroupid:1'', ''role:writer'')]"
    by (simp add: main_request_def assignedRoleMapping_def userOrGroup_switch_def
        repoOrGroup_switch_def roleName_switch_def namespaceUG_def namespaceRG_def
        namespaceRole_def namespaceAuthz_def fmt_d_def digits.simps usergroupNS_def
        repogroupNS_def roleNS_def writerRoleStr_def)
  have "RepoRole (hd (AssignedRoles main_request)) = WriterRole"
    "roleName_switch (hd (AssignedRoles main_request)) = Return (namespaceRole writerRoleStr)"
    "(writerRoleStr, [writeStr, readStr]) \<in> set RepoRoleActions"
    "ActionStr Read = Return readStr" "readStr \<in> set [writeStr, readStr]"
    by (simp_all add: main_request_def RepoRoleActions_def roleName_switch_def ActionStr_def
        Read_def Membership_def)
  moreover have "CheckAuthz \<lparr>now = 4110116411, run_limit_reached = False\<rparr> main_token
      (PublicRoot main_issuer) main_request Read =
      Return (False, Some (Flat ''error in Authorize'' ErrFailedCheck))"
    by (simp add: CheckAuthz_def ActionStr_def Read_def Membership_def loop Authorize_def)
       (simp add: main_token_def main_issuer_def IssueToken_def AttenuateBiscuit_def
          authorizer_facts_def)
  ultimately show ?thesis by simp
qed

text \<open>
  Claim C3, as amended. \<^verbatim>\<open>CheckAuthz\<close> never returns false without an error. When,
  for one of the three declared operations, the token verifies and its checks hold but
  no assigned role permits the action, it returns false together with the error of
  \<^verbatim>\<open>Authorize\<close> that no policy matched; when the evaluation itself fails (here: a run limit is reached), it returns false together
  with the error of the evaluation, through the same return statement. A denial is an
  error of the call, not a successful verdict.
\<close>

theorem CheckAuthz_deny_is_error:
  "CheckAuthz rt token publicRoot rd op \<noteq> Return (False, None) \<and>
   (ActionStr op = Return actionStr \<and> root token = publicRoot \<and>
    \<not> run_limit_reached rt \<and>
    assignedRoles_loop (AssignedRoles rd) [] = Return rs \<and>
    list_all (\<lambda>check. check (authorizer_facts token rd actionStr (now rt) rs)) (checks token) \<and>
    \<not> (\<exists>a \<in> set (AssignedRoles rd). \<exists>(roleName, allowed) \<in> set RepoRoleActions.
         roleName_switch a = Return (namespaceRole roleName) \<and> actionStr \<in> set allowed) \<longrightarrow>
    CheckAuthz rt token publicRoot rd op =
      Return (False, Some (Flat ''error in Authorize'' ErrNoMatchingPolicy))) \<and>
   (ActionStr op = Return actionStr \<and> root token = publicRoot \<and>
    run_limit_reached rt \<and>
    assignedRoles_loop (AssignedRoles rd) [] = Return rs \<longrightarrow>
    CheckAuthz rt token publicRoot rd op =
      Return (False, Some (Flat ''error in Authorize'' ErrRunLimit)))"
proof (intro conjI impI)
  show "CheckAuthz rt token publicRoot rd op \<noteq> Return (False, None)"
    by (rule CheckAuthz_not_False_None)
next
  assume a: "ActionStr op = Return actionStr \<and> root token = publicRoot \<and>
    \<not> run_limit_reached rt \<and>
    assignedRoles_loop (AssignedRoles rd) [] = Return rs \<and>
    list_all (\<lambda>check. check (authorizer_facts token rd actionStr (now rt) rs)) (checks token) \<and>
    \<not> (\<exists>a \<in> set (AssignedRoles rd). \<exists>(roleName, allowed) \<in> set RepoRoleActions.
         roleName_switch a = Return (namespaceRole roleName) \<and> actionStr \<in> set allowed)"
  then have loop: "assignedRoles_loop (AssignedRoles rd) [] = Return rs" by simp
  have "(\<exists>(u, r, role) \<in> set rs. \<exists>(roleName, allowed) \<in> set RepoRoleActions.
             namespaceRole roleName = role \<and> actionStr \<in> set allowed) \<longleftrightarrow>
          (\<exists>a \<in> set (AssignedRoles rd). \<exists>role. roleName_switch a = Return role \<and>
             (\<exists>(roleName, allowed) \<in> set RepoRoleActions.
                namespaceRole roleName = role \<and> actionStr \<in> set allowed))"
    by (rule assignedRoles_loop_roles [OF loop])
  with a have "\<not> allow (authorizer_facts token rd actionStr (now rt) rs)"
    by (auto simp: allow_authorizer_facts)
  with a show "CheckAuthz rt token publicRoot rd op =
      Return (False, Some (Flat ''error in Authorize'' ErrNoMatchingPolicy))"
    by (simp add: CheckAuthz_authorize Authorize_def)
next
  assume "ActionStr op = Return actionStr \<and> root token = publicRoot \<and>
    run_limit_reached rt \<and>
    assignedRoles_loop (AssignedRoles rd) [] = Return rs"
  then show "CheckAuthz rt token publicRoot rd op =
      Return (False, Some (Flat ''error in Authorize'' ErrRunLimit))"
    by (simp add: CheckAuthz_authorize Authorize_def)
qed

text \<open>
  The witness: user 1 asks to read Alpha and has no assigned role; the answer is false
  with the error that no policy matched, and with a run limit reached it is false with
  the error of the evaluation.
\<close>

theorem CheckAuthz_deny_is_error_witness:
  "CheckAuthz \<lparr>now = 1793000000, run_limit_reached = False\<rparr> (IssueToken main_issuer 1)
      (PublicRoot main_issuer) alpha_request Read =
      Return (False, Some (Flat ''error in Authorize'' ErrNoMatchingPolicy)) \<and>
   CheckAuthz \<lparr>now = 1793000000, run_limit_reached = True\<rparr> (IssueToken main_issuer 1)
      (PublicRoot main_issuer) alpha_request Read =
      Return (False, Some (Flat ''error in Authorize'' ErrRunLimit))"
proof -
  have loop: "assignedRoles_loop (AssignedRoles alpha_request) [] = Return []"
    by (simp add: alpha_request_def)
  have tok: "root (IssueToken main_issuer 1) = PublicRoot main_issuer"
    "checks (IssueToken main_issuer 1) = []"
    by (simp_all add: IssueToken_def)
  have none: "AssignedRoles alpha_request = []"
    by (simp add: alpha_request_def)
  have switch: "ActionStr Read = Return readStr"
    by (simp add: ActionStr_def Read_def Membership_def)
  from CheckAuthz_deny_is_error
    [where rt = "\<lparr>now = 1793000000, run_limit_reached = False\<rparr>"
       and token = "IssueToken main_issuer 1" and publicRoot = "PublicRoot main_issuer"
       and rd = alpha_request and op = Read and actionStr = readStr and rs = "[]"]
  have "CheckAuthz \<lparr>now = 1793000000, run_limit_reached = False\<rparr> (IssueToken main_issuer 1)
      (PublicRoot main_issuer) alpha_request Read =
      Return (False, Some (Flat ''error in Authorize'' ErrNoMatchingPolicy))"
    by (simp add: loop tok none switch)
  moreover from CheckAuthz_deny_is_error
    [where rt = "\<lparr>now = 1793000000, run_limit_reached = True\<rparr>"
       and token = "IssueToken main_issuer 1" and publicRoot = "PublicRoot main_issuer"
       and rd = alpha_request and op = Read and actionStr = readStr and rs = "[]"]
  have "CheckAuthz \<lparr>now = 1793000000, run_limit_reached = True\<rparr> (IssueToken main_issuer 1)
      (PublicRoot main_issuer) alpha_request Read =
      Return (False, Some (Flat ''error in Authorize'' ErrRunLimit))"
    by (simp add: loop tok switch)
  ultimately show ?thesis by simp
qed

text \<open>
  Counterexample to claim C3 as stated. For the request without assigned roles, with a
  token that verifies and has no checks, the claim asks for false without an error;
  \<^verbatim>\<open>CheckAuthz\<close> returns false with an error.
\<close>

theorem CheckAuthz_deny_counterexample:
  "AssignedRoles alpha_request = [] \<and>
   CheckAuthz \<lparr>now = 1793000000, run_limit_reached = False\<rparr> (IssueToken main_issuer 1)
      (PublicRoot main_issuer) alpha_request Read \<noteq> Return (False, None) \<and>
   CheckAuthz \<lparr>now = 1793000000, run_limit_reached = False\<rparr> (IssueToken main_issuer 1)
      (PublicRoot main_issuer) alpha_request Read =
      Return (False, Some (Flat ''error in Authorize'' ErrNoMatchingPolicy))"
  by (simp add: CheckAuthz_def ActionStr_def Read_def Membership_def alpha_request_def
      IssueToken_def Authorize_def allow_iff authorizer_facts_def)

text \<open>
  Claim C7, as amended. A role label that is not one of the three known labels makes
  \<^verbatim>\<open>repoRoleStrToEnum\<close> return an error value, and a loop of \<^verbatim>\<open>getAssignedRoles\<close> that
  meets such a label returns an error to its caller. In \<^verbatim>\<open>CheckAuthz\<close> an assigned role
  whose \<^verbatim>\<open>UserOrGroup\<close>, \<^verbatim>\<open>RepoOrGroup\<close> or \<^verbatim>\<open>RepoRole\<close> tag is not a recognised one ends
  the process through \<^verbatim>\<open>log.Fatalf\<close>: with such an assigned role in the request,
  \<^verbatim>\<open>CheckAuthz\<close> does not return to its caller, whatever the operation and the token
  are.
\<close>

theorem unrecognised_tags:
  "(repoRoleStr \<notin> {''owner'', ''reader'', ''writer''} \<longrightarrow>
      repoRoleStrToEnum repoRoleStr isRepogroup = Inl (ErrUnableToConvert repoRoleStr) \<and>
      (\<forall>row \<in> set rows. label row = repoRoleStr \<longrightarrow>
         (\<exists>err. decode_rows isRepogroup label mk rows assignedRoles = Inl err))) \<and>
   ((\<exists>a \<in> set (AssignedRoles rd). UserOrGroup a = UndefUGR \<or> RepoOrGroup a = UndefRGR \<or>
       RepoRole a = UnknownRole) \<longrightarrow>
      (\<exists>msg. CheckAuthz rt token publicRoot rd op = Exit msg))"
proof (intro conjI impI ballI)
  assume u: "repoRoleStr \<notin> {''owner'', ''reader'', ''writer''}"
  then show c: "repoRoleStrToEnum repoRoleStr isRepogroup = Inl (ErrUnableToConvert repoRoleStr)"
    by (simp add: repoRoleStrToEnum_def)
  fix row assume r: "row \<in> set rows" "label row = repoRoleStr"
  show "\<exists>err. decode_rows isRepogroup label mk rows assignedRoles = Inl err"
  proof (cases "decode_rows isRepogroup label mk rows assignedRoles")
    case (Inl err)
    then show ?thesis by simp
  next
    case (Inr rs)
    from decode_rows_Inr [OF Inr r(1)] r(2) c show ?thesis by simp
  qed
next
  assume "\<exists>a \<in> set (AssignedRoles rd). UserOrGroup a = UndefUGR \<or> RepoOrGroup a = UndefRGR \<or>
       RepoRole a = UnknownRole"
  then have "\<exists>msg. assignedRoles_loop (AssignedRoles rd) [] = Exit msg"
    by (simp add: assignedRoles_loop_Exit)
  then show "\<exists>msg. CheckAuthz rt token publicRoot rd op = Exit msg"
    by (simp add: CheckAuthz_Exit)
qed

text \<open>
  The witness: the label \<open>admin\<close> is returned as an error by the decoder and by the
  loop, and the request with the zero value of \<^verbatim>\<open>AssignedRole\<close> ends the process.
\<close>

theorem unrecognised_tags_witness:
  "repoRoleStrToEnum ''admin'' False = Inl (ErrUnableToConvert ''admin'') \<and>
   (\<exists>err. decode_rows False (\<lambda>repoRoleStr. repoRoleStr)
      (\<lambda>_ repoRole. \<lparr>UserOrGroup = UserUGR, UserOrGroupID = 4, RepoOrGroup = RepoUGR,
         RepoOrGroupID = 3, RepoRole = repoRole\<rparr>) [''reader'', ''admin''] [] = Inl err) \<and>
   (\<exists>msg. CheckAuthz \<lparr>now = 1793000000, run_limit_reached = False\<rparr> main_token
      (PublicRoot main_issuer) untagged_request Read = Exit msg)"
  using unrecognised_tags
    [where repoRoleStr = "''admin''" and isRepogroup = False
       and rows = "[''reader'', ''admin'']" and label = "\<lambda>repoRoleStr. repoRoleStr"
       and mk = "\<lambda>_ repoRole. \<lparr>UserOrGroup = UserUGR, UserOrGroupID = 4, RepoOrGroup = RepoUGR,
         RepoOrGroupID = 3, RepoRole = repoRole\<rparr>" and assignedRoles = "[]"
       and rt = "\<lparr>now = 1793000000, run_limit_reached = False\<rparr>" and token = main_token
       and publicRoot = "PublicRoot main_issuer" and rd = untagged_request and op = Read]
  by (simp add: untagged_request_def)

text \<open>
  Counterexample to claim C7 as stated. With the zero value of \<^verbatim>\<open>AssignedRole\<close> as
  assigned role, \<^verbatim>\<open>CheckAuthz\<close> ends the process and returns nothing to its caller.
\<close>

theorem CheckAuthz_exit_counterexample:
  "CheckAuthz \<lparr>now = 1793000000, run_limit_reached = False\<rparr> main_token (PublicRoot main_issuer)
      untagged_request Read = Exit ''Failed to match UserOrGroup in role assignment''"
  by (simp add: CheckAuthz_def ActionStr_def Read_def Membership_def untagged_request_def
      assignedRoleMapping_def userOrGroup_switch_def)

text \<open>
  Claim C9. The table of \<^verbatim>\<open>CheckAuthz\<close> has three entries: owner with membership,
  write and read, writer with write and read, reader with read. In the facts given to
  the evaluator, the role name of an assigned role is required for the requested
  operation, one of the three declared ones, exactly when the operation is among the
  actions the table gives to that role.
\<close>

theorem RepoRoleActions_table:
  "map fst RepoRoleActions = [ownerRoleStr, writerRoleStr, readerRoleStr] \<and>
   map_of RepoRoleActions ownerRoleStr = Some [membershipStr, writeStr, readStr] \<and>
   map_of RepoRoleActions writerRoleStr = Some [writeStr, readStr] \<and>
   map_of RepoRoleActions readerRoleStr = Some [readStr] \<and>
   (roleName_switch a = Return role \<and> ActionStr op = Return actionStr \<longrightarrow>
      (req_role (authorizer_facts token rd actionStr t rs) role (namespaceAction actionStr) \<longleftrightarrow>
         (RepoRole a, op) \<in>
            {(OwnerRole, Membership), (OwnerRole, Write), (OwnerRole, Read),
             (WriterRole, Write), (WriterRole, Read), (ReaderRole, Read)}))"
proof -
  have table: "map fst RepoRoleActions = [ownerRoleStr, writerRoleStr, readerRoleStr]"
    "map_of RepoRoleActions ownerRoleStr = Some [membershipStr, writeStr, readStr]"
    "map_of RepoRoleActions writerRoleStr = Some [writeStr, readStr]"
    "map_of RepoRoleActions readerRoleStr = Some [readStr]"
    by (simp_all add: RepoRoleActions_def ownerRoleStr_def writerRoleStr_def readerRoleStr_def)
  have req: "req_role (authorizer_facts token rd actionStr t rs) role (namespaceAction actionStr) \<longleftrightarrow>
      (\<exists>(roleName, allowed) \<in> set RepoRoleActions.
         role = namespaceRole roleName \<and> actionStr \<in> set allowed)" for role actionStr
    by (auto simp: req_role_iff authorizer_facts_def namespaceAction_in_buildRoleActions)
  have permits:
    "(\<exists>(roleName, allowed) \<in> set RepoRoleActions.
        role = namespaceRole roleName \<and> membershipStr \<in> set allowed) \<longleftrightarrow>
     RepoRole a = OwnerRole"
    "(\<exists>(roleName, allowed) \<in> set RepoRoleActions.
        role = namespaceRole roleName \<and> writeStr \<in> set allowed) \<longleftrightarrow>
     RepoRole a \<in> {OwnerRole, WriterRole}"
    "(\<exists>(roleName, allowed) \<in> set RepoRoleActions.
        role = namespaceRole roleName \<and> readStr \<in> set allowed) \<longleftrightarrow>
     RepoRole a \<in> {OwnerRole, WriterRole, ReaderRole}"
    if "roleName_switch a = Return role"
    using that
    by (cases "RepoRole a";
        auto simp: roleName_switch_def RepoRoleActions_def namespaceRole_def namespaceAuthz_eq
          ownerRoleStr_def writerRoleStr_def readerRoleStr_def membershipStr_def
          writeStr_def readStr_def)+
  have distinct_ops: "Membership \<noteq> Read" "Membership \<noteq> Write" "Read \<noteq> Write"
    "Read \<noteq> Membership" "Write \<noteq> Membership" "Write \<noteq> Read"
    by (simp_all add: Membership_def Read_def Write_def)
  have "req_role (authorizer_facts token rd actionStr t rs) role (namespaceAction actionStr) \<longleftrightarrow>
         (RepoRole a, op) \<in>
            {(OwnerRole, Membership), (OwnerRole, Write), (OwnerRole, Read),
             (WriterRole, Write), (WriterRole, Read), (ReaderRole, Read)}"
    if h: "roleName_switch a = Return role \<and> ActionStr op = Return actionStr"
  proof -
    from h have s: "roleName_switch a = Return role" by simp
    from h consider
        (op_membership) "op = Membership" "actionStr = membershipStr"
      | (op_read) "op = Read" "actionStr = readStr"
      | (op_write) "op = Write" "actionStr = writeStr"
      by (auto simp: ActionStr_def split: if_splits)
    then show ?thesis
    proof cases
      case op_membership
      with permits(1) [OF s] distinct_ops show ?thesis
        unfolding req by simp
    next
      case op_read
      with permits(3) [OF s] distinct_ops show ?thesis
        unfolding req by auto
    next
      case op_write
      with permits(2) [OF s] distinct_ops show ?thesis
        unfolding req by auto
    qed
  qed
  with table show ?thesis by simp
qed

text \<open>
  The witness: for the assigned role of the request of \<^verbatim>\<open>main.go\<close>, a writer role, the
  role name is required for reading and not for managing membership.
\<close>

theorem RepoRoleActions_table_witness:
  "roleName_switch (hd (AssignedRoles main_request)) = Return ''role:writer'' \<and>
   ActionStr Read = Return readStr \<and> ActionStr Membership = Return membershipStr \<and>
   req_role (authorizer_facts main_token main_request readStr 1793000000 []) ''role:writer''
     (namespaceAction readStr) \<and>
   \<not> req_role (authorizer_facts main_token main_request membershipStr 1793000000 [])
     ''role:writer'' (namespaceAction membershipStr)"
proof -
  have s: "roleName_switch (hd (AssignedRoles main_request)) = Return ''role:writer''"
    by (simp add: main_request_def roleName_switch_def namespaceRole_def namespaceAuthz_def
        roleNS_def writerRoleStr_def)
  have r: "RepoRole (hd (AssignedRoles main_request)) = WriterRole"
    by (simp add: main_request_def)
  have o: "ActionStr Read = Return readStr" "ActionStr Membership = Return membershipStr"
    by (simp_all add: ActionStr_def Read_def Membership_def)
  have d: "Membership \<noteq> Write" "Membership \<noteq> Read" "Read \<noteq> Write"
    by (simp_all add: Read_def Membership_def Write_def)
  from RepoRoleActions_table
    [where a = "hd (AssignedRoles main_request)" and role = "''role:writer''"
       and token = main_token and rd = main_request and op = Read and actionStr = readStr
       and t = 1793000000 and rs = "[]"]
    RepoRoleActions_table
    [where a = "hd (AssignedRoles main_request)" and role = "''role:writer''"
       and token = main_token and rd = main_request and op = Membership
       and actionStr = membershipStr and t = 1793000000 and rs = "[]"]
    s r o d show ?thesis by simp
qed

section \<open>Claims about the role assignments and the request details\<close>

text \<open>
  Claim C2. The label \<open>owner\<close> decoded for a repogroup is the error that repogroups
  cannot have owner roles, never \<^verbatim>\<open>OwnerRole\<close>. When one of the two repogroup
  statements of \<^verbatim>\<open>getAssignedRoles\<close> returns a row with that label, the function returns
  an error and no list of roles: the row is not skipped. When moreover the driver does
  not fail and the stored labels are the three known ones, so that no other decoding
  can fail, the error returned is that error, wrapped by the loop.
\<close>

theorem owner_on_repogroup:
  "repoRoleStrToEnum ''owner'' True = Inl ErrOwnerOnRepogroup \<and>
   ((\<exists>rg. (rg, ''owner'') \<in>
        set (getUserRepogroupRolesQuery tx userId (repogroupIds repogroupRels))) \<or>
    (\<exists>rg ug. (rg, ug, ''owner'') \<in>
        set (getUsergroupRepogroupRolesQuery tx (usergroupIds usergroupRels)
               (repogroupIds repogroupRels))) \<longrightarrow>
    (\<exists>err. getAssignedRoles userId repoId usergroupRels repogroupRels tx = Inl err) \<and>
    ((\<forall>q. \<not> fails tx q) \<and>
     snd ` set (repo_roles_enum tx) \<subseteq> {''owner'', ''reader'', ''writer''} \<and>
     snd ` set (repogroup_roles_enum tx) \<subseteq> {''owner'', ''reader'', ''writer''} \<longrightarrow>
     getAssignedRoles userId repoId usergroupRels repogroupRels tx =
       Inl (Wrap ''error when mapping db role to enum'' ErrOwnerOnRepogroup)))"
proof (intro conjI impI)
  show "repoRoleStrToEnum ''owner'' True = Inl ErrOwnerOnRepogroup"
    by (simp add: repoRoleStrToEnum_def)
next
  assume o: "(\<exists>rg. (rg, ''owner'') \<in>
        set (getUserRepogroupRolesQuery tx userId (repogroupIds repogroupRels))) \<or>
    (\<exists>rg ug. (rg, ug, ''owner'') \<in>
        set (getUsergroupRepogroupRolesQuery tx (usergroupIds usergroupRels)
               (repogroupIds repogroupRels)))"
  show err: "\<exists>err. getAssignedRoles userId repoId usergroupRels repogroupRels tx = Inl err"
  proof (cases "getAssignedRoles userId repoId usergroupRels repogroupRels tx")
    case (Inl err)
    then show ?thesis by simp
  next
    case (Inr rs)
    from getAssignedRoles_no_owner [OF Inr] o show ?thesis by fastforce
  qed
  assume "(\<forall>q. \<not> fails tx q) \<and>
     snd ` set (repo_roles_enum tx) \<subseteq> {''owner'', ''reader'', ''writer''} \<and>
     snd ` set (repogroup_roles_enum tx) \<subseteq> {''owner'', ''reader'', ''writer''}"
  with err getAssignedRoles_Inl_known [of tx userId repoId usergroupRels repogroupRels]
  show "getAssignedRoles userId repoId usergroupRels repogroupRels tx =
       Inl (Wrap ''error when mapping db role to enum'' ErrOwnerOnRepogroup)"
    by auto
qed

text \<open>
  The witness: in a store where user 4 is an owner of repogroup 1, the roles of user 4
  on repo 3, which belongs to that repogroup, are not returned; the error is.
\<close>

theorem owner_on_repogroup_witness:
  "(1, ''owner'') \<in> set (getUserRepogroupRolesQuery owner_db 4
       (repogroupIds [\<lparr>RepogroupId = 1, RepoId = 3\<rparr>])) \<and>
   getAssignedRoles 4 3 (UsergroupRelationships main_request) [\<lparr>RepogroupId = 1, RepoId = 3\<rparr>]
       owner_db =
     Inl (Wrap ''error when mapping db role to enum'' ErrOwnerOnRepogroup)"
proof -
  have q: "(1, ''owner'') \<in> set (getUserRepogroupRolesQuery owner_db 4
       (repogroupIds [\<lparr>RepogroupId = 1, RepoId = 3\<rparr>]))"
    by (simp add: getUserRepogroupRolesQuery_def owner_db_def init_db_def repogroupIds_def
        map_store_def)
  have f: "\<forall>q. \<not> fails owner_db q"
    by (simp add: owner_db_def init_db_def)
  have k: "snd ` set (repo_roles_enum owner_db) \<subseteq> {''owner'', ''reader'', ''writer''}"
    "snd ` set (repogroup_roles_enum owner_db) \<subseteq> {''owner'', ''reader'', ''writer''}"
    by (simp_all add: owner_db_def init_db_def)
  from owner_on_repogroup
    [of owner_db 4 "[\<lparr>RepogroupId = 1, RepoId = 3\<rparr>]" "UsergroupRelationships main_request" 3]
    q f k
  show ?thesis by blast
qed

text \<open>
  Claim C6, as amended. \<^verbatim>\<open>GatherRequestDetails\<close> looks the user up, computes the
  closure of the usergroups and only then looks the repo up. When the repo name is not
  in the store the request fails with an error, and neither the repogroups nor the
  role assignments are looked up; when the steps before the repo lookup succeed, the
  closure has been computed by then, the error is the missing row of the repo lookup
  and the transaction is rolled back.
\<close>

theorem GatherRequestDetails_repo_missing:
  "reponame \<notin> snd ` set (Repos tx) \<Longrightarrow>
   (\<exists>err. snd (GatherRequestDetails userId reponame tx) = Inl err) \<and>
   CallGetRepogroupRels \<notin> set (fst (GatherRequestDetails userId reponame tx)) \<and>
   CallGetAssignedRoles \<notin> set (fst (GatherRequestDetails userId reponame tx)) \<and>
   (\<not> fails tx QBeginTx \<and> \<not> fails tx QUsername \<and> userId \<in> fst ` set (Users tx) \<and>
    \<not> fails tx QUsergroups \<and> \<not> fails tx QReponame \<longrightarrow>
    GatherRequestDetails userId reponame tx =
      ([CallBeginTx, CallCheckUserInDb, CallGetUsergroupsRecursive, CallCheckRepoInDb,
        CallRollback],
       Inl (Wrap ''error from checkRepoInDb''
              (Wrap ''error querying for repo from DB'' ErrNoRows))))"
proof -
  assume m: "reponame \<notin> snd ` set (Repos tx)"
  then have e: "[repo_id. (repo_id, name) \<leftarrow> Repos tx, name = reponame] = []"
    by (induction "Repos tx") (auto simp: image_iff concat_eq_Nil_conv)
  have repo: "checkRepoInDb reponame tx =
      Inl (Wrap ''error querying for repo from DB''
             (if fails tx QReponame then ErrDriver else ErrNoRows))"
    unfolding checkRepoInDb_def e by simp
  have user: "\<not> fails tx QUsername \<Longrightarrow> userId \<in> fst ` set (Users tx) \<Longrightarrow>
      \<exists>username. checkUserInDb userId tx = Inr username"
  proof -
    assume "\<not> fails tx QUsername" and "userId \<in> fst ` set (Users tx)"
    then have "[username. (user_id, username) \<leftarrow> Users tx, user_id = userId] \<noteq> []"
      by (force simp: concat_eq_Nil_conv)
    with \<open>\<not> fails tx QUsername\<close> show ?thesis
      by (auto simp: checkUserInDb_def split: list.splits)
  qed
  have closure: "\<not> fails tx QUsergroups \<Longrightarrow>
      \<exists>rels. getUsergroupsRecursive userId tx = Inr rels"
    by (simp add: getUsergroupsRecursive_def)
  show ?thesis
  proof (intro conjI impI)
    show "\<exists>err. snd (GatherRequestDetails userId reponame tx) = Inl err"
      by (auto simp: GatherRequestDetails_def repo split: sum.splits)
    show "CallGetRepogroupRels \<notin> set (fst (GatherRequestDetails userId reponame tx))"
      by (auto simp: GatherRequestDetails_def repo split: sum.splits)
    show "CallGetAssignedRoles \<notin> set (fst (GatherRequestDetails userId reponame tx))"
      by (auto simp: GatherRequestDetails_def repo split: sum.splits)
    assume a: "\<not> fails tx QBeginTx \<and> \<not> fails tx QUsername \<and> userId \<in> fst ` set (Users tx) \<and>
        \<not> fails tx QUsergroups \<and> \<not> fails tx QReponame"
    with user closure obtain username rels where
      "checkUserInDb userId tx = Inr username" "getUsergroupsRecursive userId tx = Inr rels"
      by blast
    with a show "GatherRequestDetails userId reponame tx =
      ([CallBeginTx, CallCheckUserInDb, CallGetUsergroupsRecursive, CallCheckRepoInDb,
        CallRollback],
       Inl (Wrap ''error from checkRepoInDb''
              (Wrap ''error querying for repo from DB'' ErrNoRows)))"
      by (simp add: GatherRequestDetails_def repo)
  qed
qed

text \<open>The witness: user 4 asks for the repo Delta, which the example data does not have.\<close>

theorem GatherRequestDetails_repo_missing_witness:
  "''Delta'' \<notin> snd ` set (Repos init_db) \<and>
   GatherRequestDetails 4 ''Delta'' init_db =
     ([CallBeginTx, CallCheckUserInDb, CallGetUsergroupsRecursive, CallCheckRepoInDb,
       CallRollback],
      Inl (Wrap ''error from checkRepoInDb''
             (Wrap ''error querying for repo from DB'' ErrNoRows)))"
proof -
  have m: "''Delta'' \<notin> snd ` set (Repos init_db)"
    by (simp add: init_db_def)
  have a: "\<not> fails init_db QBeginTx \<and> \<not> fails init_db QUsername \<and>
      4 \<in> fst ` set (Users init_db) \<and> \<not> fails init_db QUsergroups \<and>
      \<not> fails init_db QReponame"
    by (simp add: init_db_def)
  from GatherRequestDetails_repo_missing [OF m, of 4] a m show ?thesis
    by blast
qed

text \<open>
  Counterexample to claim C6 as stated. For the missing repo Delta the closure of
  user 4 is computed, before the repo lookup is made.
\<close>

theorem GatherRequestDetails_closure_counterexample:
  "''Delta'' \<notin> snd ` set (Repos init_db) \<and>
   fst (GatherRequestDetails 4 ''Delta'' init_db) =
     [CallBeginTx, CallCheckUserInDb, CallGetUsergroupsRecursive, CallCheckRepoInDb,
      CallRollback] \<and>
   CallGetUsergroupsRecursive \<in> set (fst (GatherRequestDetails 4 ''Delta'' init_db))"
  by (simp add: GatherRequestDetails_def checkUserInDb_def checkRepoInDb_def
      getUsergroupsRecursive_def init_db_def)

end
